theory Spec2Isabelle
  imports Complex_Main
begin

section \<open>Data model\<close>

text \<open>
  Python floats are modelled as real numbers (\<open>energy_flux_double\<close> is the flux profile in
  binary64 arithmetic), non-negative Python integers (MPI rank and
  size, array dimensions, pixel indices) as natural numbers; the code never subtracts
  on them. Every raise of the source is a value \<open>Inl e\<close>.
\<close>

datatype error = ZeroDivisionError | IndexError | ValueError | AttributeError | TypeError

definition bind_err :: "error + 'a \<Rightarrow> ('a \<Rightarrow> error + 'b) \<Rightarrow> error + 'b" where
  "bind_err m f = (case m of Inl e \<Rightarrow> Inl e | Inr x \<Rightarrow> f x)"

text \<open>A position or a momentum: the four components \<open>x[0] .. x[3]\<close>.\<close>

type_synonym vec4 = "real \<times> real \<times> real \<times> real"

text \<open>
  The list \<open>[t, r, theta, phi, k_t, k_r, k_theta, k_phi]\<close>: index 1 is \<open>x_r\<close>,
  index 2 is \<open>x_theta\<close>.
\<close>

record phase_state =
  x_t :: real
  x_r :: real
  x_theta :: real
  x_phi :: real
  k_t :: real
  k_r :: real
  k_th :: real
  k_phi :: real

text \<open>
  The spacetime object is not part of the sources; the code reads \<open>metric\<close>,
  \<open>geodesics\<close> and \<open>EH\<close> from it.
\<close>

record blackhole =
  EH :: real
  metric :: "vec4 \<Rightarrow> real \<times> real \<times> real \<times> real \<times> real"
  geodesics :: "phase_state \<Rightarrow> real \<Rightarrow> phase_state"

section \<open>simple\_disk.py\<close>

record disk =
  in_edge :: real
  out_edge :: real

text \<open>
  Class \<open>structure\<close> is the record \<open>disk\<close>. Its \<open>__init__\<close> stores both radii, with
  no check and no raise.
\<close>

definition structure_init :: "blackhole \<Rightarrow> real \<Rightarrow> real \<Rightarrow> bool \<Rightarrow> error + disk" where
  "structure_init bh R_min R_max corotating = Inr \<lparr>in_edge = R_min, out_edge = R_max\<rparr>"

text \<open>
  \<open>energy_flux\<close>: the slope \<open>m\<close> is computed before the test on \<open>r\<close>, so the division
  raises for equal edges whatever \<open>r\<close> is.
\<close>

definition energy_flux :: "disk \<Rightarrow> real \<Rightarrow> error + real" where
  "energy_flux self r =
     (if in_edge self - out_edge self = 0 then Inl ZeroDivisionError
      else
        let m = (1 - 0) / (in_edge self - out_edge self);
            intensity = m * (r - out_edge self)
        in if r > in_edge self \<and> r < out_edge self then Inr intensity else Inr 0)"

section \<open>simple\_disk.py in binary64 arithmetic\<close>

text \<open>
  Rounding of a real number to an integer, to the nearest one and to the even one at a
  tie.
\<close>

definition round_half_even :: "real \<Rightarrow> int" where
  "round_half_even x =
     (let f = \<lfloor>x\<rfloor>; d = x - of_int f
      in if d < 1 / 2 then f else if 1 / 2 < d then f + 1 else if even f then f else f + 1)"

text \<open>
  The binary64 number nearest to a real number, ties to even: 53 significant bits, and the
  quantum \<open>2^-1074\<close> of the subnormal numbers below \<open>2^-1022\<close>. Overflow to infinity is not
  part of the model: \<open>round64\<close> is the rounding of the machine wherever the result does not
  exceed the largest binary64 number.
\<close>

definition expo :: "real \<Rightarrow> int" where
  "expo x = max \<lfloor>log 2 \<bar>x\<bar>\<rfloor> (- 1022)"

definition round64 :: "real \<Rightarrow> real" where
  "round64 x =
     (if x = 0 then 0
      else let q = 2 powr (of_int (expo x) - 52)
           in of_int (round_half_even (x / q)) * q)"

text \<open>
  \<open>energy_flux\<close> as CPython evaluates it on floats: every subtraction, division and
  product of the source is rounded once.
\<close>

definition energy_flux_double :: "disk \<Rightarrow> real \<Rightarrow> error + real" where
  "energy_flux_double self r =
     (if round64 (in_edge self - out_edge self) = 0 then Inl ZeroDivisionError
      else
        let m = round64 (round64 (1 - 0) / round64 (in_edge self - out_edge self));
            intensity = round64 (m * round64 (r - out_edge self))
        in if r > in_edge self \<and> r < out_edge self then Inr intensity else Inr 0)"

section \<open>common.py: initial conditions\<close>

definition initCond :: "vec4 \<Rightarrow> vec4 \<Rightarrow> blackhole \<Rightarrow> phase_state" where
  "initCond x k bh =
     (case x of (x0, x1, x2, x3) \<Rightarrow>
      case k of (k0, k1, k2, k3) \<Rightarrow>
      case metric bh x of (g_tt, g_rr, g_thth, g_phph, g_tph) \<Rightarrow>
        \<lparr>x_t = x0, x_r = x1, x_theta = x2, x_phi = x3,
         k_t = g_tt * k0 + g_tph * k3,
         k_r = g_rr * k1,
         k_th = g_thth * k2,
         k_phi = g_phph * k3 + g_tph * k0\<rparr>)"

section \<open>common.py: photons and the intersection resolver\<close>

text \<open>
  The detector is not part of the sources; the code reads these attributes from it.
  \<open>D\<close> is an integer: \<open>linspace\<close> takes \<open>8 * final_lmbda\<close> as its number of samples.
\<close>

record detector =
  D :: nat
  x_pixels :: nat
  y_pixels :: nat
  alphaRange :: "real list"
  betaRange :: "real list"
  photon_coords :: "real \<Rightarrow> real \<Rightarrow> vec4 \<times> vec4"

text \<open>
  A photon. Python's \<open>None\<close> is \<open>None\<close>; the attribute \<open>iC\<close> does not exist until
  \<open>initial_conditions\<close> has run, which is \<open>None\<close> here too.
\<close>

record photon =
  alpha :: real
  beta :: real
  ph_i :: "nat option"
  ph_j :: "nat option"
  xin :: "vec4 option"
  kin :: "vec4 option"
  fP :: "phase_state option"
  iC :: "phase_state option"

definition Photon :: "real \<Rightarrow> real \<Rightarrow> real \<Rightarrow> photon" where
  "Photon a b freq =
     \<lparr>alpha = a, beta = b, ph_i = None, ph_j = None, xin = None, kin = None,
      fP = None, iC = None\<rparr>"

definition initial_conditions :: "photon \<Rightarrow> blackhole \<Rightarrow> error + photon" where
  "initial_conditions self bh =
     (case (xin self, kin self) of
        (Some x, Some k) \<Rightarrow> Inr (self\<lparr>iC := Some (initCond x k bh)\<rparr>)
      | _ \<Rightarrow> Inl TypeError)"

text \<open>The list \<open>[0,0,0,0,0,0,0,0]\<close>.\<close>

definition zero_state :: phase_state where
  "zero_state = \<lparr>x_t = 0, x_r = 0, x_theta = 0, x_phi = 0, k_t = 0, k_r = 0, k_th = 0, k_phi = 0\<rparr>"

text \<open>numpy's \<open>linspace(start, stop, num)\<close>: \<open>num\<close> evenly spaced samples, both ends included.\<close>

definition linspace :: "real \<Rightarrow> real \<Rightarrow> nat \<Rightarrow> real list" where
  "linspace start stop num =
     (if num = 1 then [start]
      else map (\<lambda>n. start + real n * ((stop - start) / real (num - 1))) [0..<num])"

text \<open>
  numpy's \<open>argmax\<close> on a boolean array: the index of the first \<open>True\<close>, index 0 when
  all entries are \<open>False\<close> (the first maximum), \<open>ValueError\<close> on an empty array.
\<close>

fun first_index :: "bool list \<Rightarrow> nat option" where
  "first_index [] = None"
| "first_index (b # bs) = (if b then Some 0 else map_option Suc (first_index bs))"

definition argmax :: "bool list \<Rightarrow> error + nat" where
  "argmax bs =
     (if bs = [] then Inl ValueError
      else Inr (case first_index bs of Some n \<Rightarrow> n | None \<Rightarrow> 0))"

definition eh_condition :: "blackhole \<Rightarrow> phase_state list \<Rightarrow> bool list" where
  "eh_condition bh sol = map (\<lambda>s. x_r s < EH bh + 1 / 100000) sol"

definition edge_condition :: "real \<Rightarrow> real \<Rightarrow> phase_state list \<Rightarrow> bool list" where
  "edge_condition in_e out_e sol =
     map (\<lambda>s. \<bar>x_r s * cos (x_theta s)\<bar> < 1 / 10 \<and> x_r s > in_e \<and> x_r s < out_e) sol"

text \<open>The affine-parameter grid \<open>linspace(0, -final_lmbda, 8*final_lmbda)\<close>.\<close>

definition lmbda_grid :: "detector \<Rightarrow> real list" where
  "lmbda_grid det =
     (let final_lmbda = 2 * D det
      in linspace 0 (- real final_lmbda) (8 * final_lmbda))"

text \<open>
  \<open>geo_integ\<close>. scipy's \<open>odeint\<close> is the parameter \<open>odeint\<close>: from the derivative
  function, the initial state and the grid to the array of samples. The function returns
  the photon with its \<open>fP\<close> assigned.
\<close>

type_synonym ode_solver =
  "(phase_state \<Rightarrow> real \<Rightarrow> phase_state) \<Rightarrow> phase_state \<Rightarrow> real list \<Rightarrow> phase_state list"

definition geo_integ :: "ode_solver \<Rightarrow> photon \<Rightarrow> blackhole \<Rightarrow> disk \<Rightarrow> detector \<Rightarrow> error + photon" where
  "geo_integ odeint p bh acc_structure det =
     (let in_e = in_edge acc_structure; out_e = out_edge acc_structure;
          lmbda = lmbda_grid det
      in case iC p of
           None \<Rightarrow> Inl AttributeError
         | Some ic \<Rightarrow>
             let sol = odeint (geodesics bh) ic lmbda;
                 p0 = p\<lparr>fP := Some zero_state\<rparr>;
                 eh_cond = eh_condition bh sol;
                 edge_cond = edge_condition in_e out_e sol
             in bind_err (argmax eh_cond) (\<lambda>indx_eh.
                bind_err (argmax edge_cond) (\<lambda>indx_edge.
                  if edge_cond ! indx_edge then Inr (p0\<lparr>fP := Some (sol ! indx_edge)\<rparr>)
                  else if eh_cond ! indx_eh then Inr (p0\<lparr>fP := Some zero_state\<rparr>)
                  else Inr p0)))"

section \<open>common.py: the image assembler\<close>

text \<open>
  An \<open>Image\<close> object. The attributes \<open>detector\<close>, \<open>photon_list\<close> and \<open>image_data\<close> do not
  exist until \<open>create_photons\<close> and \<open>create_image\<close> create them (\<open>None\<close> here).
\<close>

record image =
  start_alpha :: nat
  start_beta :: nat
  end_alpha :: nat
  end_beta :: nat
  img_detector :: "detector option"
  photon_list :: "photon list option"
  image_data :: "real list list option"

definition Image :: "nat \<Rightarrow> nat \<Rightarrow> nat \<Rightarrow> nat \<Rightarrow> image" where
  "Image sa sb ea eb =
     \<lparr>start_alpha = sa, start_beta = sb, end_alpha = ea, end_beta = eb,
      img_detector = None, photon_list = None, image_data = None\<rparr>"

text \<open>Reading \<open>xs[n]\<close> with a non-negative index.\<close>

definition getitem :: "'a list \<Rightarrow> nat \<Rightarrow> error + 'a" where
  "getitem xs n = (if n < length xs then Inr (xs ! n) else Inl IndexError)"

fun mapM_err :: "('a \<Rightarrow> error + 'b) \<Rightarrow> 'a list \<Rightarrow> error + 'b list" where
  "mapM_err f [] = Inr []"
| "mapM_err f (x # xs) =
     (case f x of
        Inl e \<Rightarrow> Inl e
      | Inr y \<Rightarrow> (case mapM_err f xs of Inl e \<Rightarrow> Inl e | Inr ys \<Rightarrow> Inr (y # ys)))"

text \<open>
  The pairs \<open>(i, j)\<close> that the two nested \<open>for\<close> loops of \<open>create_photons\<close> visit, in their
  order.
\<close>

definition pixel_indices :: "image \<Rightarrow> detector \<Rightarrow> (nat \<times> nat) list" where
  "pixel_indices self det =
     concat (map (\<lambda>i.
       let beta_start = (if i = start_alpha self then start_beta self else 0);
           beta_end = (if i = end_alpha self then end_beta self else length (betaRange det))
       in map (\<lambda>j. (i, j)) [beta_start ..< beta_end])
     [start_alpha self ..< end_alpha self + 1])"

text \<open>The body of the inner loop: the photon of pixel \<open>(i, j)\<close>.\<close>

definition new_photon :: "blackhole \<Rightarrow> detector \<Rightarrow> nat \<times> nat \<Rightarrow> error + photon" where
  "new_photon bh det ij =
     (case ij of (i, j) \<Rightarrow>
        bind_err (getitem (alphaRange det) i) (\<lambda>a.
        bind_err (getitem (betaRange det) j) (\<lambda>b.
          let p = Photon a b 1;
              p = (case photon_coords det a b of (x, k) \<Rightarrow> p\<lparr>xin := Some x, kin := Some k\<rparr>);
              p = p\<lparr>ph_i := Some i, ph_j := Some j\<rparr>
          in initial_conditions p bh)))"

definition create_photons :: "image \<Rightarrow> blackhole \<Rightarrow> detector \<Rightarrow> error + image" where
  "create_photons self bh det =
     bind_err (mapM_err (new_photon bh det) (pixel_indices self det)) (\<lambda>ps.
       Inr (self\<lparr>img_detector := Some det, photon_list := Some ps\<rparr>))"

text \<open>numpy's \<open>zeros([n, m])\<close>.\<close>

definition zeros :: "nat \<Rightarrow> nat \<Rightarrow> real list list" where
  "zeros n m = replicate n (replicate m 0)"

text \<open>
  The assignment \<open>a[i, j] = v\<close> on a two-dimensional array. An index that is \<open>None\<close> is
  numpy's \<open>newaxis\<close>: the scalar is then broadcast over the selected row, or over the whole
  array.
\<close>

definition setitem2 :: "real list list \<Rightarrow> nat option \<Rightarrow> nat option \<Rightarrow> real \<Rightarrow> error + real list list" where
  "setitem2 a io jo v =
     (case (io, jo) of
        (Some i, Some j) \<Rightarrow>
          if i < length a \<and> j < length (a ! i) then Inr (a[i := (a ! i)[j := v]])
          else Inl IndexError
      | (Some i, None) \<Rightarrow>
          if i < length a then Inr (a[i := map (\<lambda>_. v) (a ! i)]) else Inl IndexError
      | (None, Some j) \<Rightarrow>
          if j < length a then Inr (a[j := map (\<lambda>_. v) (a ! j)]) else Inl IndexError
      | (None, None) \<Rightarrow> Inr (map (map (\<lambda>_. v)) a))"

text \<open>
  The loop of \<open>create_image\<close> over the photon list: the photons with their \<open>fP\<close> assigned,
  and the array filled so far. The progress counter is only printed.
\<close>

fun create_image_loop ::
  "ode_solver \<Rightarrow> blackhole \<Rightarrow> disk \<Rightarrow> detector \<Rightarrow> photon list \<Rightarrow> real list list
     \<Rightarrow> error + (photon list \<times> real list list)" where
  "create_image_loop odeint bh acc det [] data = Inr ([], data)"
| "create_image_loop odeint bh acc det (p # ps) data =
     (case geo_integ odeint p bh acc det of
        Inl e \<Rightarrow> Inl e
      | Inr p' \<Rightarrow>
          (case fP p' of
             None \<Rightarrow> Inl TypeError
           | Some f \<Rightarrow>
               (case energy_flux acc (x_r f) of
                  Inl e \<Rightarrow> Inl e
                | Inr v \<Rightarrow>
                    (case setitem2 data (ph_i p') (ph_j p') v of
                       Inl e \<Rightarrow> Inl e
                     | Inr data' \<Rightarrow>
                         (case create_image_loop odeint bh acc det ps data' of
                            Inl e \<Rightarrow> Inl e
                          | Inr (ps', d) \<Rightarrow> Inr (p' # ps', d))))))"

definition create_image :: "ode_solver \<Rightarrow> image \<Rightarrow> blackhole \<Rightarrow> disk \<Rightarrow> error + image" where
  "create_image odeint self bh acc =
     (case img_detector self of
        None \<Rightarrow> Inl AttributeError
      | Some det \<Rightarrow>
          (case photon_list self of
             None \<Rightarrow> Inl AttributeError
           | Some ps \<Rightarrow>
               bind_err (create_image_loop odeint bh acc det ps (zeros (x_pixels det) (y_pixels det)))
                 (\<lambda>r. case r of (ps', d) \<Rightarrow>
                    Inr (self\<lparr>photon_list := Some ps', image_data := Some d\<rparr>))))"

section \<open>parallel.py\<close>

text \<open>The linear index range \<open>(start_idx, end_idx)\<close> of a rank, for a positive \<open>size\<close> (\<open>nprocs\<close> here).\<close>

definition index_range :: "nat \<Rightarrow> nat \<Rightarrow> nat \<Rightarrow> nat \<times> nat" where
  "index_range rank nprocs total_photons =
     (let photons_per_rank = total_photons div nprocs;
          rest = total_photons mod nprocs
      in if rank < rest
         then (let start_idx = rank * (photons_per_rank + 1)
               in (start_idx, start_idx + photons_per_rank + 1))
         else (let start_idx = (rank * photons_per_rank) + rest
               in (start_idx, start_idx + photons_per_rank)))"

definition distribute :: "nat \<Rightarrow> nat \<Rightarrow> detector \<Rightarrow> error + (nat \<times> nat \<times> nat \<times> nat)" where
  "distribute rank nprocs det =
     (let total_photons = x_pixels det * y_pixels det
      in if nprocs = 0 then Inl ZeroDivisionError
         else case index_range rank nprocs total_photons of (start_idx, end_idx) \<Rightarrow>
           if length (betaRange det) = 0 then Inl ZeroDivisionError
           else Inr (start_idx div length (betaRange det), start_idx mod length (betaRange det),
                     end_idx div length (betaRange det), end_idx mod length (betaRange det)))"

text \<open>The two local variables of \<open>distribute\<close>, as functions of its arguments.\<close>

definition start_idx :: "nat \<Rightarrow> nat \<Rightarrow> detector \<Rightarrow> nat" where
  "start_idx rank nprocs det = fst (index_range rank nprocs (x_pixels det * y_pixels det))"

definition end_idx :: "nat \<Rightarrow> nat \<Rightarrow> detector \<Rightarrow> nat" where
  "end_idx rank nprocs det = snd (index_range rank nprocs (x_pixels det * y_pixels det))"

text \<open>Elementwise sum of two arrays of the same shape.\<close>

definition add_image :: "real list list \<Rightarrow> real list list \<Rightarrow> real list list" where
  "add_image a b = map2 (map2 (+)) a b"

text \<open>
  numpy's \<open>sum(arrays, axis=0)\<close> on the gathered list, one array per rank, all of one
  shape. An MPI communicator has at least one rank; for the empty list numpy returns the
  scalar 0, the array with no entry here.
\<close>

definition sum_axis0 :: "real list list list \<Rightarrow> real list list" where
  "sum_axis0 arrays = (case arrays of [] \<Rightarrow> [] | a # as \<Rightarrow> foldl add_image a as)"

text \<open>
  \<open>gather_and_process_data\<close>. The argument \<open>gathered\<close> is what \<open>comm.gather\<close> returns on the
  root: the arrays of all ranks, in rank order.
\<close>

definition gather_and_process_data :: "real list list list \<Rightarrow> detector \<Rightarrow> nat \<Rightarrow> real list list option" where
  "gather_and_process_data gathered det rank =
     (if rank = 0 then Some (sum_axis0 gathered) else None)"

text \<open>
  Modelled from the spec: the driver is not part of the sources. Following the data flow
  of the spec (partitioner, per-worker pixel range, image assembler, partial buffer), a
  worker calls \<open>distribute\<close>, builds the \<open>Image\<close> of its range, creates its photons and its
  image, and hands over \<open>image_data\<close>.
\<close>

definition worker_image ::
  "ode_solver \<Rightarrow> blackhole \<Rightarrow> disk \<Rightarrow> detector \<Rightarrow> nat \<Rightarrow> nat \<Rightarrow> error + real list list" where
  "worker_image odeint bh acc det rank nprocs =
     bind_err (distribute rank nprocs det) (\<lambda>r. case r of (sa, sb, ea, eb) \<Rightarrow>
     bind_err (create_photons (Image sa sb ea eb) bh det) (\<lambda>img.
     bind_err (create_image odeint img bh acc) (\<lambda>img'.
       case image_data img' of None \<Rightarrow> Inl AttributeError | Some d \<Rightarrow> Inr d)))"

section \<open>Auxiliary definitions\<close>

text \<open>
  Used to state and prove the properties of the image assembler: the array whose entry
  \<open>(i, j)\<close> is \<open>f (i, j)\<close>; the flux that the loop of \<open>create_image\<close> stores for a photon and
  for the photon of a pixel; the pixels that a rank visits and the buffer it fills.
\<close>

definition table :: "nat \<Rightarrow> nat \<Rightarrow> (nat \<times> nat \<Rightarrow> real) \<Rightarrow> real list list" where
  "table n m f = map (\<lambda>i. map (\<lambda>j. f (i, j)) [0..<m]) [0..<n]"

definition photon_flux :: "ode_solver \<Rightarrow> blackhole \<Rightarrow> disk \<Rightarrow> detector \<Rightarrow> photon \<Rightarrow> error + real" where
  "photon_flux odeint bh acc det p =
     (case geo_integ odeint p bh acc det of
        Inl e \<Rightarrow> Inl e
      | Inr p' \<Rightarrow> (case fP p' of None \<Rightarrow> Inl TypeError | Some f \<Rightarrow> energy_flux acc (x_r f)))"

definition pixel_flux :: "ode_solver \<Rightarrow> blackhole \<Rightarrow> disk \<Rightarrow> detector \<Rightarrow> nat \<times> nat \<Rightarrow> error + real" where
  "pixel_flux odeint bh acc det q =
     (case new_photon bh det q of Inl e \<Rightarrow> Inl e | Inr p \<Rightarrow> photon_flux odeint bh acc det p)"

definition rank_pixels :: "detector \<Rightarrow> nat \<Rightarrow> nat \<Rightarrow> (nat \<times> nat) list" where
  "rank_pixels det rank nprocs =
     pixel_indices
       (Image (start_idx rank nprocs det div length (betaRange det))
              (start_idx rank nprocs det mod length (betaRange det))
              (end_idx rank nprocs det div length (betaRange det))
              (end_idx rank nprocs det mod length (betaRange det))) det"

definition rank_buffer ::
  "ode_solver \<Rightarrow> blackhole \<Rightarrow> disk \<Rightarrow> detector \<Rightarrow> nat \<Rightarrow> nat \<Rightarrow> nat \<times> nat \<Rightarrow> real" where
  "rank_buffer odeint bh acc det rank nprocs q =
     (if q \<in> set (rank_pixels det rank nprocs) then projr (pixel_flux odeint bh acc det q) else 0)"

section \<open>Example values\<close>

definition ex_blackhole :: blackhole where
  "ex_blackhole = \<lparr>EH = 2, metric = (\<lambda>x. (-1, 1, 1, 1, 0)), geodesics = (\<lambda>s l. s)\<rparr>"

definition ex_detector :: detector where
  "ex_detector = \<lparr>D = 1, x_pixels = 1, y_pixels = 1, alphaRange = [0], betaRange = [0],
     photon_coords = (\<lambda>a b. ((0, 50, 1, 0), (1, 1, 0, 0)))\<rparr>"

definition ex_disk :: disk where
  "ex_disk = \<lparr>in_edge = 3, out_edge = 10\<rparr>"

definition sample_at :: "real \<Rightarrow> real \<Rightarrow> phase_state" where
  "sample_at r th = \<lparr>x_t = 0, x_r = r, x_theta = th, x_phi = 0, k_t = 0, k_r = 0, k_th = 0, k_phi = 0\<rparr>"

definition ex_photon :: photon where
  "ex_photon = (Photon 0 0 1)\<lparr>iC := Some (sample_at 50 0)\<rparr>"

definition ex_grid :: detector where
  "ex_grid = \<lparr>D = 1, x_pixels = 2, y_pixels = 2, alphaRange = [0, 1], betaRange = [0, 1],
     photon_coords = (\<lambda>a b. ((0, 4 + a + 2 * b, pi / 2, 0), (1, 1, 0, 0)))\<rparr>"

definition ex_solver :: ode_solver where
  "ex_solver = (\<lambda>f y ts. [y])"

section \<open>Properties of the flux profile\<close>

lemma energy_flux_outside:
  "in_edge s \<noteq> out_edge s \<Longrightarrow> \<not> (in_edge s < r \<and> r < out_edge s) \<Longrightarrow> energy_flux s r = Inr 0"
  by (simp add: energy_flux_def Let_def)

lemma energy_flux_inside:
  "in_edge s < r \<Longrightarrow> r < out_edge s \<Longrightarrow>
   energy_flux s r = Inr ((r - out_edge s) / (in_edge s - out_edge s))"
  by (simp add: energy_flux_def Let_def)

lemma energy_flux_equal_edges: "in_edge s = out_edge s \<Longrightarrow> energy_flux s r = Inl ZeroDivisionError"
  by (simp add: energy_flux_def)

lemma profile_bounds:
  fixes a b r :: real
  assumes "a < r" "r < b"
  shows "0 < (r - b) / (a - b)" "(r - b) / (a - b) < 1"
proof -
  have neg: "a - b < 0" and neg2: "r - b < 0" using assms by simp_all
  show "0 < (r - b) / (a - b)" by (rule divide_neg_neg[OF neg2 neg])
  show "(r - b) / (a - b) < 1" using neg assms by simp
qed

text \<open>
  C6. \<open>initCond\<close> returns the four coordinates of \<open>x\<close> unchanged, followed by the
  momentum lowered with the five metric components that \<open>metric x\<close> returns:
  \<open>k_t = g_tt k^t + g_tphi k^phi\<close>, \<open>k_r = g_rr k^r\<close>, \<open>k_theta = g_thth k^theta\<close>,
  \<open>k_phi = g_phph k^phi + g_tphi k^t\<close>.
\<close>

theorem initCond_lowers_momentum:
  "metric bh (x0, x1, x2, x3) = (g_tt, g_rr, g_thth, g_phph, g_tph) \<longrightarrow>
   initCond (x0, x1, x2, x3) (kt, kr, ktheta, kphi) bh =
     \<lparr>x_t = x0, x_r = x1, x_theta = x2, x_phi = x3,
      k_t = g_tt * kt + g_tph * kphi,
      k_r = g_rr * kr,
      k_th = g_thth * ktheta,
      k_phi = g_phph * kphi + g_tph * kt\<rparr>"
  by (simp add: initCond_def)

theorem initCond_lowers_momentum_witness:
  "metric \<lparr>EH = 2, metric = (\<lambda>x. (-1, 2, 3, 4, 5)), geodesics = (\<lambda>s l. s)\<rparr> (0, 10, 1, 0)
     = (-1, 2, 3, 4, 5) \<and>
   initCond (0, 10, 1, 0) (1, 2, 3, 4)
     \<lparr>EH = 2, metric = (\<lambda>x. (-1, 2, 3, 4, 5)), geodesics = (\<lambda>s l. s)\<rparr> =
     \<lparr>x_t = 0, x_r = 10, x_theta = 1, x_phi = 0,
      k_t = 19, k_r = 4, k_th = 9, k_phi = 21\<rparr>"
  using initCond_lowers_momentum
    [of "\<lparr>EH = 2, metric = (\<lambda>x. (-1, 2, 3, 4, 5)), geodesics = (\<lambda>s l. s)\<rparr>"
        0 10 1 0 "-1" 2 3 4 5 1 2 3 4]
  by simp

section \<open>Properties of the intersection resolver\<close>

lemma first_index_None: "first_index bs = None \<longleftrightarrow> (\<forall>b \<in> set bs. \<not> b)"
  by (induction bs) auto

lemma first_index_Some:
  "first_index bs = Some n \<Longrightarrow> n < length bs \<and> bs ! n \<and> (\<forall>k < n. \<not> bs ! k)"
proof (induction bs arbitrary: n)
  case Nil
  then show ?case by simp
next
  case (Cons b bs)
  show ?case
  proof (cases b)
    case True
    with Cons.prems show ?thesis by simp
  next
    case False
    with Cons.prems obtain m where m: "first_index bs = Some m" "n = Suc m" by auto
    from Cons.IH[OF m(1)] have ih: "m < length bs" "bs ! m" "\<forall>k < m. \<not> bs ! k" by simp_all
    show ?thesis using ih m(2) False by (auto simp: nth_Cons split: nat.splits)
  qed
qed

lemma argmax_all_false:
  assumes "bs \<noteq> []" "\<forall>b \<in> set bs. \<not> b"
  shows "argmax bs = Inr 0 \<and> \<not> bs ! 0"
proof -
  have "first_index bs = None" using assms(2) by (simp only: first_index_None)
  then have "argmax bs = Inr 0" using assms(1) by (simp add: argmax_def)
  moreover have "bs ! 0 \<in> set bs" using assms(1) by simp
  then have "\<not> bs ! 0" using assms(2) by blast
  ultimately show ?thesis by simp
qed

lemma argmax_some_true:
  assumes "n < length bs" "bs ! n"
  shows "\<exists>m. argmax bs = Inr m \<and> m < length bs \<and> bs ! m \<and> (\<forall>k < m. \<not> bs ! k)"
proof -
  have "bs ! n \<in> set bs" using assms(1) by simp
  then have "first_index bs \<noteq> None" using assms(2) by (auto simp: first_index_None)
  then obtain m where m: "first_index bs = Some m" by auto
  have "bs \<noteq> []" using assms(1) by auto
  then have "argmax bs = Inr m" using m by (simp add: argmax_def)
  then show ?thesis using first_index_Some[OF m] by simp
qed

lemma argmax_Inr: "argmax bs = Inr m \<Longrightarrow> bs \<noteq> [] \<and> m < length bs"
proof (cases "first_index bs")
  case None
  assume "argmax bs = Inr m"
  then show ?thesis using None by (auto simp: argmax_def split: if_splits)
next
  case (Some n)
  assume "argmax bs = Inr m"
  then have "bs \<noteq> []" "m = n" using Some by (auto simp: argmax_def split: if_splits)
  then show ?thesis using first_index_Some[OF Some] by simp
qed

lemma argmax_true_first:
  assumes "argmax bs = Inr m" "bs ! m"
  shows "\<forall>k < m. \<not> bs ! k"
proof (cases "first_index bs")
  case None
  then have "m = 0" using assms(1) by (auto simp: argmax_def split: if_splits)
  then show ?thesis by simp
next
  case (Some n)
  then have "m = n" using assms(1) by (auto simp: argmax_def split: if_splits)
  then show ?thesis using first_index_Some[OF Some] by simp
qed

lemma geo_integ_resolved:
  assumes ic: "iC p = Some ic"
    and sol: "sol = odeint (geodesics bh) ic (lmbda_grid det)"
    and eh: "argmax (eh_condition bh sol) = Inr indx_eh"
    and edge: "argmax (edge_condition (in_edge acc) (out_edge acc) sol) = Inr indx_edge"
  shows "geo_integ odeint p bh acc det =
     Inr (p\<lparr>fP := Some (if edge_condition (in_edge acc) (out_edge acc) sol ! indx_edge
                          then sol ! indx_edge else zero_state)\<rparr>)"
proof -
  note eh' = eh[unfolded sol] and edge' = edge[unfolded sol]
  show ?thesis
    unfolding geo_integ_def Let_def ic option.case eh' edge' bind_err_def sum.case sol
    by simp
qed

text \<open>
  C1. When the disk-crossing condition holds at its candidate index \<open>indx_edge\<close> and the
  horizon condition holds at its candidate index \<open>indx_eh\<close>, \<open>geo_integ\<close> sets \<open>fP\<close> to the
  trajectory sample at \<open>indx_edge\<close>, whatever the order of the two indices; both are the
  first indices where their condition is true, and for a non-negative inner edge the
  sample is not the all-zero state.
\<close>

theorem disk_crossing_priority:
  assumes "iC p = Some ic"
    and "sol = odeint (geodesics bh) ic (lmbda_grid det)"
    and "argmax (edge_condition (in_edge acc) (out_edge acc) sol) = Inr indx_edge"
    and "argmax (eh_condition bh sol) = Inr indx_eh"
    and "edge_condition (in_edge acc) (out_edge acc) sol ! indx_edge"
    and "eh_condition bh sol ! indx_eh"
  shows "geo_integ odeint p bh acc det = Inr (p\<lparr>fP := Some (sol ! indx_edge)\<rparr>) \<and>
         (\<forall>k < indx_edge. \<not> edge_condition (in_edge acc) (out_edge acc) sol ! k) \<and>
         (\<forall>k < indx_eh. \<not> eh_condition bh sol ! k) \<and>
         (0 \<le> in_edge acc \<longrightarrow> sol ! indx_edge \<noteq> zero_state)"
proof -
  have res: "geo_integ odeint p bh acc det = Inr (p\<lparr>fP := Some (sol ! indx_edge)\<rparr>)"
    using geo_integ_resolved[where odeint = odeint and bh = bh and det = det,
        OF assms(1) assms(2) assms(4) assms(3)] assms(5) by simp
  have len: "indx_edge < length sol"
    using argmax_Inr[OF assms(3)] by (simp add: edge_condition_def)
  have "in_edge acc < x_r (sol ! indx_edge)"
    using assms(5) len by (simp add: edge_condition_def)
  then have nz: "0 \<le> in_edge acc \<longrightarrow> sol ! indx_edge \<noteq> zero_state"
    by (auto simp: zero_state_def)
  show ?thesis
    using res nz argmax_true_first[OF assms(3) assms(5)] argmax_true_first[OF assms(4) assms(6)]
    by simp
qed

theorem disk_crossing_priority_witness:
  "geo_integ (\<lambda>f y ts. [sample_at 1 0, sample_at 5 (pi / 2)]) ex_photon ex_blackhole ex_disk ex_detector
     = Inr (ex_photon\<lparr>fP := Some (sample_at 5 (pi / 2))\<rparr>) \<and>
   argmax (eh_condition ex_blackhole [sample_at 1 0, sample_at 5 (pi / 2)]) = Inr 0 \<and>
   argmax (edge_condition 3 10 [sample_at 1 0, sample_at 5 (pi / 2)]) = Inr 1 \<and>
   sample_at 5 (pi / 2) \<noteq> zero_state"
proof -
  let ?sol = "[sample_at 1 0, sample_at 5 (pi / 2)]"
  have ic: "iC ex_photon = Some (sample_at 50 0)" by (simp add: ex_photon_def)
  have edge: "edge_condition (in_edge ex_disk) (out_edge ex_disk) ?sol = [False, True]"
    by (simp add: edge_condition_def ex_disk_def sample_at_def)
  have eh: "eh_condition ex_blackhole ?sol = [True, False]"
    by (simp add: eh_condition_def ex_blackhole_def sample_at_def)
  have a1: "argmax (edge_condition (in_edge ex_disk) (out_edge ex_disk) ?sol) = Inr 1"
    by (simp add: edge argmax_def)
  have a0: "argmax (eh_condition ex_blackhole ?sol) = Inr 0"
    by (simp add: eh argmax_def)
  have e1: "edge_condition (in_edge ex_disk) (out_edge ex_disk) ?sol ! 1" by (simp add: edge)
  have e0: "eh_condition ex_blackhole ?sol ! 0" by (simp add: eh)
  have "0 \<le> in_edge ex_disk" by (simp add: ex_disk_def)
  then show ?thesis
    using disk_crossing_priority[where p = ex_photon and odeint = "\<lambda>f y ts. ?sol"
        and bh = ex_blackhole and det = ex_detector and acc = ex_disk, OF ic refl a1 a0 e1 e0] a0 a1
    by (simp add: ex_disk_def)
qed

text \<open>
  C4. When no sample of the trajectory satisfies the disk-crossing condition and none
  satisfies the horizon condition, both first-true scans return index 0 (the first element
  of an all-false array), \<open>geo_integ\<close> leaves \<open>fP\<close> at the all-zero state, and for an extent
  with \<open>0 < in_edge < out_edge\<close> the flux sampled at the terminal radius 0 is exactly 0.
  The trajectory has at least one sample, as every array returned by the solver has.
\<close>

theorem escape_default_zero:
  assumes "iC p = Some ic"
    and "sol = odeint (geodesics bh) ic (lmbda_grid det)"
    and "sol \<noteq> []"
    and "\<forall>s \<in> set sol. \<not> (\<bar>x_r s * cos (x_theta s)\<bar> < 1 / 10 \<and> x_r s > in_edge acc \<and> x_r s < out_edge acc)"
    and "\<forall>s \<in> set sol. \<not> x_r s < EH bh + 1 / 100000"
  shows "geo_integ odeint p bh acc det = Inr (p\<lparr>fP := Some zero_state\<rparr>) \<and>
         argmax (edge_condition (in_edge acc) (out_edge acc) sol) = Inr 0 \<and>
         argmax (eh_condition bh sol) = Inr 0 \<and>
         (0 < in_edge acc \<and> in_edge acc < out_edge acc \<longrightarrow>
            energy_flux acc (x_r zero_state) = Inr 0)"
proof -
  have edge_false: "\<forall>b \<in> set (edge_condition (in_edge acc) (out_edge acc) sol). \<not> b"
    using assms(4) by (simp add: edge_condition_def)
  have eh_false: "\<forall>b \<in> set (eh_condition bh sol). \<not> b"
    using assms(5) by (simp add: eh_condition_def)
  have ne1: "edge_condition (in_edge acc) (out_edge acc) sol \<noteq> []"
    using assms(3) by (simp add: edge_condition_def)
  have ne2: "eh_condition bh sol \<noteq> []"
    using assms(3) by (simp add: eh_condition_def)
  note a_edge = argmax_all_false[OF ne1 edge_false]
  note a_eh = argmax_all_false[OF ne2 eh_false]
  have res: "geo_integ odeint p bh acc det = Inr (p\<lparr>fP := Some zero_state\<rparr>)"
    using geo_integ_resolved[where odeint = odeint and bh = bh and det = det,
        OF assms(1) assms(2) conjunct1[OF a_eh] conjunct1[OF a_edge]] a_edge
    by simp
  have flux: "0 < in_edge acc \<and> in_edge acc < out_edge acc \<longrightarrow>
      energy_flux acc (x_r zero_state) = Inr 0"
    by (simp add: energy_flux_outside zero_state_def)
  show ?thesis using res a_edge a_eh flux by simp
qed

theorem escape_default_zero_witness:
  "geo_integ (\<lambda>f y ts. [sample_at 50 0, sample_at 40 0]) ex_photon ex_blackhole ex_disk ex_detector
     = Inr (ex_photon\<lparr>fP := Some zero_state\<rparr>) \<and>
   argmax (edge_condition 3 10 [sample_at 50 0, sample_at 40 0]) = Inr 0 \<and>
   argmax (eh_condition ex_blackhole [sample_at 50 0, sample_at 40 0]) = Inr 0 \<and>
   energy_flux ex_disk (x_r zero_state) = Inr 0"
proof -
  let ?sol = "[sample_at 50 0, sample_at 40 0]"
  have ic: "iC ex_photon = Some (sample_at 50 0)" by (simp add: ex_photon_def)
  have ne: "?sol \<noteq> []" by simp
  have nd: "\<forall>s \<in> set ?sol. \<not> (\<bar>x_r s * cos (x_theta s)\<bar> < 1 / 10 \<and> x_r s > in_edge ex_disk
      \<and> x_r s < out_edge ex_disk)"
    by (simp add: sample_at_def ex_disk_def)
  have nh: "\<forall>s \<in> set ?sol. \<not> x_r s < EH ex_blackhole + 1 / 100000"
    by (simp add: sample_at_def ex_blackhole_def)
  have ext: "0 < in_edge ex_disk \<and> in_edge ex_disk < out_edge ex_disk" by (simp add: ex_disk_def)
  show ?thesis
    using escape_default_zero[where p = ex_photon and odeint = "\<lambda>f y ts. ?sol"
        and bh = ex_blackhole and det = ex_detector and acc = ex_disk, OF ic refl ne nd nh] ext
    by (simp add: ex_disk_def)
qed

text \<open>
  C5. When the disk-crossing condition does not hold at its candidate index and some sample
  satisfies \<open>r < EH + 1e-5\<close>, \<open>geo_integ\<close> sets \<open>fP\<close> to the all-zero state and not to the
  capturing sample; for a disk with a non-negative inner edge the flux sampled there is 0.
\<close>

theorem captured_ray_zero_state:
  assumes "iC p = Some ic"
    and "sol = odeint (geodesics bh) ic (lmbda_grid det)"
    and "argmax (edge_condition (in_edge acc) (out_edge acc) sol) = Inr indx_edge"
    and "\<not> edge_condition (in_edge acc) (out_edge acc) sol ! indx_edge"
    and "n < length sol"
    and "x_r (sol ! n) < EH bh + 1 / 100000"
  shows "geo_integ odeint p bh acc det = Inr (p\<lparr>fP := Some zero_state\<rparr>) \<and>
         (sol ! n \<noteq> zero_state \<longrightarrow>
            geo_integ odeint p bh acc det \<noteq> Inr (p\<lparr>fP := Some (sol ! n)\<rparr>)) \<and>
         (0 \<le> in_edge acc \<and> in_edge acc \<noteq> out_edge acc \<longrightarrow>
            energy_flux acc (x_r zero_state) = Inr 0)"
proof -
  have "n < length (eh_condition bh sol)" "eh_condition bh sol ! n"
    using assms(5,6) by (simp_all add: eh_condition_def)
  from argmax_some_true[OF this] obtain m where m: "argmax (eh_condition bh sol) = Inr m"
    by blast
  have res: "geo_integ odeint p bh acc det = Inr (p\<lparr>fP := Some zero_state\<rparr>)"
    using geo_integ_resolved[where odeint = odeint and bh = bh and det = det,
        OF assms(1) assms(2) m assms(3)] assms(4)
    by simp
  have neq: "sol ! n \<noteq> zero_state \<longrightarrow>
      geo_integ odeint p bh acc det \<noteq> Inr (p\<lparr>fP := Some (sol ! n)\<rparr>)"
  proof
    assume d: "sol ! n \<noteq> zero_state"
    show "geo_integ odeint p bh acc det \<noteq> Inr (p\<lparr>fP := Some (sol ! n)\<rparr>)"
    proof
      assume "geo_integ odeint p bh acc det = Inr (p\<lparr>fP := Some (sol ! n)\<rparr>)"
      then have "p\<lparr>fP := Some zero_state\<rparr> = p\<lparr>fP := Some (sol ! n)\<rparr>" using res by simp
      then have "fP (p\<lparr>fP := Some zero_state\<rparr>) = fP (p\<lparr>fP := Some (sol ! n)\<rparr>)" by simp
      then show False using d by simp
    qed
  qed
  have flux: "0 \<le> in_edge acc \<and> in_edge acc \<noteq> out_edge acc \<longrightarrow>
      energy_flux acc (x_r zero_state) = Inr 0"
    by (simp add: energy_flux_outside zero_state_def)
  show ?thesis using res neq flux by simp
qed

theorem captured_ray_zero_state_witness:
  "geo_integ (\<lambda>f y ts. [sample_at 50 0, sample_at 1 0]) ex_photon ex_blackhole ex_disk ex_detector
     = Inr (ex_photon\<lparr>fP := Some zero_state\<rparr>) \<and>
   geo_integ (\<lambda>f y ts. [sample_at 50 0, sample_at 1 0]) ex_photon ex_blackhole ex_disk ex_detector
     \<noteq> Inr (ex_photon\<lparr>fP := Some (sample_at 1 0)\<rparr>) \<and>
   energy_flux ex_disk (x_r zero_state) = Inr 0"
proof -
  let ?sol = "[sample_at 50 0, sample_at 1 0]"
  have ic: "iC ex_photon = Some (sample_at 50 0)" by (simp add: ex_photon_def)
  have edge: "edge_condition (in_edge ex_disk) (out_edge ex_disk) ?sol = [False, False]"
    by (simp add: edge_condition_def ex_disk_def sample_at_def)
  have a0: "argmax (edge_condition (in_edge ex_disk) (out_edge ex_disk) ?sol) = Inr 0"
    by (simp add: edge argmax_def)
  have e0: "\<not> edge_condition (in_edge ex_disk) (out_edge ex_disk) ?sol ! 0" by (simp add: edge)
  have n: "1 < length ?sol" by simp
  have h: "x_r (?sol ! 1) < EH ex_blackhole + 1 / 100000"
    by (simp add: sample_at_def ex_blackhole_def)
  have nz: "?sol ! 1 \<noteq> zero_state" by (simp add: sample_at_def zero_state_def)
  have ext: "0 \<le> in_edge ex_disk \<and> in_edge ex_disk \<noteq> out_edge ex_disk" by (simp add: ex_disk_def)
  have s1: "?sol ! 1 = sample_at 1 0" by simp
  show ?thesis
    using captured_ray_zero_state[where p = ex_photon and odeint = "\<lambda>f y ts. ?sol"
        and bh = ex_blackhole and det = ex_detector and acc = ex_disk, OF ic refl a0 e0 n h] nz ext
    unfolding s1 by blast
qed

text \<open>
  C9, as stated, fails: at construction \<open>fP\<close> is \<open>None\<close>, not the all-zero state.
\<close>

theorem photon_terminal_default_counterexample:
  "fP (Photon 0 0 1) \<noteq> Some zero_state"
  by (simp add: Photon_def)

text \<open>
  C9, amended. \<open>Photon.__init__\<close> leaves \<open>fP\<close> at \<open>None\<close>; the all-zero state is assigned
  inside \<open>geo_integ\<close>, before the scan, so a photon whose trajectory crosses neither the disk
  nor the horizon ends with the all-zero state that the resolver assigned.
\<close>

theorem photon_terminal_assigned_in_resolver:
  assumes "iC p = Some ic"
    and "sol = odeint (geodesics bh) ic (lmbda_grid det)"
    and "sol \<noteq> []"
    and "\<forall>s \<in> set sol. \<not> (\<bar>x_r s * cos (x_theta s)\<bar> < 1 / 10 \<and> x_r s > in_edge acc \<and> x_r s < out_edge acc)"
    and "\<forall>s \<in> set sol. \<not> x_r s < EH bh + 1 / 100000"
  shows "fP (Photon a b freq) = None \<and>
         geo_integ odeint p bh acc det = Inr (p\<lparr>fP := Some zero_state\<rparr>)"
proof -
  have edge_false: "\<forall>b \<in> set (edge_condition (in_edge acc) (out_edge acc) sol). \<not> b"
    using assms(4) by (simp add: edge_condition_def)
  have eh_false: "\<forall>b \<in> set (eh_condition bh sol). \<not> b"
    using assms(5) by (simp add: eh_condition_def)
  have ne1: "edge_condition (in_edge acc) (out_edge acc) sol \<noteq> []"
    using assms(3) by (simp add: edge_condition_def)
  have ne2: "eh_condition bh sol \<noteq> []"
    using assms(3) by (simp add: eh_condition_def)
  note a_edge = argmax_all_false[OF ne1 edge_false]
  note a_eh = argmax_all_false[OF ne2 eh_false]
  have "geo_integ odeint p bh acc det = Inr (p\<lparr>fP := Some zero_state\<rparr>)"
    using geo_integ_resolved[where odeint = odeint and bh = bh and det = det,
        OF assms(1) assms(2) conjunct1[OF a_eh] conjunct1[OF a_edge]] a_edge
    by simp
  then show ?thesis by (simp add: Photon_def)
qed

theorem photon_terminal_assigned_in_resolver_witness:
  "fP (Photon 0 0 1) = None \<and> fP ((Photon 0 0 1)\<lparr>iC := Some (sample_at 50 0)\<rparr>) = None \<and>
   geo_integ (\<lambda>f y ts. [sample_at 50 0, sample_at 45 0])
     ((Photon 0 0 1)\<lparr>iC := Some (sample_at 50 0)\<rparr>) ex_blackhole ex_disk ex_detector
     = Inr ((Photon 0 0 1)\<lparr>iC := Some (sample_at 50 0), fP := Some zero_state\<rparr>)"
proof -
  let ?sol = "[sample_at 50 0, sample_at 45 0]"
  let ?p = "(Photon 0 0 1)\<lparr>iC := Some (sample_at 50 0)\<rparr>"
  have ic: "iC ?p = Some (sample_at 50 0)" by simp
  have ne: "?sol \<noteq> []" by simp
  have nd: "\<forall>s \<in> set ?sol. \<not> (\<bar>x_r s * cos (x_theta s)\<bar> < 1 / 10 \<and> x_r s > in_edge ex_disk
      \<and> x_r s < out_edge ex_disk)"
    by (simp add: sample_at_def ex_disk_def)
  have nh: "\<forall>s \<in> set ?sol. \<not> x_r s < EH ex_blackhole + 1 / 100000"
    by (simp add: sample_at_def ex_blackhole_def)
  show ?thesis
    using photon_terminal_assigned_in_resolver[where p = ?p and odeint = "\<lambda>f y ts. ?sol"
        and bh = ex_blackhole and det = ex_detector and acc = ex_disk and a = 0 and b = 0 and freq = 1,
        OF ic refl ne nd nh]
    by (simp add: Photon_def)
qed

section \<open>Properties of the disk\<close>

text \<open>
  C7, as stated for every accretion structure, fails where both edges are equal: the slope is
  computed before the test on \<open>r\<close>, and \<open>energy_flux\<close> raises instead of returning 0.
\<close>

theorem energy_flux_degenerate_counterexample:
  "energy_flux \<lparr>in_edge = 3, out_edge = 3\<rparr> 3 = Inl ZeroDivisionError \<and>
   energy_flux \<lparr>in_edge = 3, out_edge = 3\<rparr> 3 \<noteq> Inr 0"
  by (simp add: energy_flux_def)

text \<open>
  C7, amended. For every accretion structure whose edges differ, \<open>energy_flux\<close> returns
  exactly 0 at \<open>r = in_edge\<close>, at \<open>r = out_edge\<close> and at every \<open>r\<close> outside the open interval;
  strictly between the edges it returns the linear profile, which is not zero.
\<close>

theorem energy_flux_zero_at_edges:
  assumes "in_edge s \<noteq> out_edge s"
  shows "energy_flux s (in_edge s) = Inr 0 \<and>
         energy_flux s (out_edge s) = Inr 0 \<and>
         (\<not> (in_edge s < r \<and> r < out_edge s) \<longrightarrow> energy_flux s r = Inr 0) \<and>
         (in_edge s < r \<and> r < out_edge s \<longrightarrow>
            energy_flux s r = Inr ((r - out_edge s) / (in_edge s - out_edge s)) \<and>
            (r - out_edge s) / (in_edge s - out_edge s) \<noteq> 0)"
proof -
  have a: "energy_flux s (in_edge s) = Inr 0" using assms by (simp add: energy_flux_outside)
  have b: "energy_flux s (out_edge s) = Inr 0" using assms by (simp add: energy_flux_outside)
  have c: "\<not> (in_edge s < r \<and> r < out_edge s) \<longrightarrow> energy_flux s r = Inr 0"
    using assms by (simp add: energy_flux_outside)
  have d: "in_edge s < r \<and> r < out_edge s \<longrightarrow>
            energy_flux s r = Inr ((r - out_edge s) / (in_edge s - out_edge s)) \<and>
            (r - out_edge s) / (in_edge s - out_edge s) \<noteq> 0"
    using profile_bounds(1)[of "in_edge s" r "out_edge s"] by (auto simp: energy_flux_inside)
  show ?thesis using a b c d by blast
qed

theorem energy_flux_zero_at_edges_witness:
  "energy_flux ex_disk 3 = Inr 0 \<and> energy_flux ex_disk 10 = Inr 0 \<and>
   energy_flux ex_disk 12 = Inr 0 \<and> energy_flux ex_disk 5 = Inr (5 / 7)"
proof -
  have ne: "in_edge ex_disk \<noteq> out_edge ex_disk" by (simp add: ex_disk_def)
  show ?thesis
    using energy_flux_zero_at_edges[OF ne, of 12] energy_flux_zero_at_edges[OF ne, of 5]
    by (simp add: ex_disk_def)
qed

text \<open>
  C8, as stated, fails: the constructor accepts \<open>in_edge = out_edge = 3\<close> without an
  error, and the failure appears only when a flux is evaluated.
\<close>

theorem structure_accepts_malformed_counterexample:
  "(3::real) \<ge> 3 \<and> \<not> isl (structure_init ex_blackhole 3 3 True) \<and>
   structure_init ex_blackhole 3 3 True = Inr \<lparr>in_edge = 3, out_edge = 3\<rparr> \<and>
   energy_flux \<lparr>in_edge = 3, out_edge = 3\<rparr> 5 = Inl ZeroDivisionError"
  by (simp add: structure_init_def energy_flux_def)

text \<open>
  C8, amended. \<open>structure.__init__\<close> accepts every pair of radii and stores it unchanged;
  with equal edges every \<open>energy_flux\<close> call raises \<open>ZeroDivisionError\<close>, and with
  \<open>in_edge > out_edge\<close> every call returns 0.
\<close>

theorem structure_no_validation:
  "structure_init bh R_min R_max corotating = Inr \<lparr>in_edge = R_min, out_edge = R_max\<rparr> \<and>
   (R_min = R_max \<longrightarrow> energy_flux \<lparr>in_edge = R_min, out_edge = R_max\<rparr> r = Inl ZeroDivisionError) \<and>
   (R_min > R_max \<longrightarrow> energy_flux \<lparr>in_edge = R_min, out_edge = R_max\<rparr> r = Inr 0)"
  by (simp add: structure_init_def energy_flux_equal_edges energy_flux_outside)

theorem structure_no_validation_witness:
  "structure_init ex_blackhole 3 3 True = Inr \<lparr>in_edge = 3, out_edge = 3\<rparr> \<and>
   energy_flux \<lparr>in_edge = 3, out_edge = 3\<rparr> 5 = Inl ZeroDivisionError \<and>
   structure_init ex_blackhole 5 3 True = Inr \<lparr>in_edge = 5, out_edge = 3\<rparr> \<and>
   energy_flux \<lparr>in_edge = 5, out_edge = 3\<rparr> 4 = Inr 0"
  using structure_no_validation[of ex_blackhole 3 3 True 5]
    structure_no_validation[of ex_blackhole 5 3 True 4]
  by simp

section \<open>Properties of the work partitioner\<close>

lemma index_range_fst:
  "fst (index_range r W T) = (if r < T mod W then r * (T div W + 1) else r * (T div W) + T mod W)"
  by (simp add: index_range_def Let_def)

lemma index_range_snd:
  "snd (index_range r W T) =
     fst (index_range r W T) + (if r < T mod W then T div W + 1 else T div W)"
  by (simp add: index_range_def Let_def)

lemma index_range_chain: "snd (index_range r W T) = fst (index_range (Suc r) W T)"
proof -
  consider "Suc r < T mod W" | "r < T mod W" "\<not> Suc r < T mod W" | "\<not> r < T mod W"
    by linarith
  then show ?thesis
  proof cases
    case 1
    then show ?thesis by (simp add: index_range_snd index_range_fst)
  next
    case 2
    then have "T mod W = Suc r" by simp
    then show ?thesis using 2 by (simp add: index_range_snd index_range_fst)
  next
    case 3
    then show ?thesis by (simp add: index_range_snd index_range_fst)
  qed
qed

lemma index_range_mono: "fst (index_range r W T) \<le> fst (index_range (Suc r) W T)"
  using index_range_snd[of r W T] index_range_chain[of r W T] by simp

lemma index_range_first: "fst (index_range 0 W T) = 0"
  by (simp add: index_range_fst)

lemma index_range_last:
  assumes "0 < W"
  shows "fst (index_range W W T) = T"
proof -
  have "\<not> W < T mod W" using assms by (simp add: less_imp_le not_less)
  then show ?thesis by (simp add: index_range_fst)
qed

lemma chain_union:
  fixes f :: "nat \<Rightarrow> nat"
  assumes "\<And>r. f r \<le> f (Suc r)"
  shows "(\<Union>r \<in> {..<n}. {f r ..< f (Suc r)}) = {f 0 ..< f n}"
proof (induction n)
  case 0
  then show ?case by simp
next
  case (Suc n)
  have "f 0 \<le> f n" using assms by (rule lift_Suc_mono_le) simp
  then have "{f 0 ..< f n} \<union> {f n ..< f (Suc n)} = {f 0 ..< f (Suc n)}"
    using assms[of n] by auto
  then show ?case using Suc.IH by (simp add: lessThan_Suc Un_commute)
qed

lemma chain_disjoint:
  fixes f :: "nat \<Rightarrow> nat"
  assumes "\<And>r. f r \<le> f (Suc r)" "r \<noteq> r'"
  shows "{f r ..< f (Suc r)} \<inter> {f r' ..< f (Suc r')} = {}"
proof -
  have le: "\<And>a b. a < b \<Longrightarrow> f (Suc a) \<le> f b"
    using assms(1) by (rule lift_Suc_mono_le) simp
  consider "r < r'" | "r' < r" using assms(2) by linarith
  then show ?thesis
  proof cases
    case 1
    then show ?thesis using le[of r r'] by auto
  next
    case 2
    then show ?thesis using le[of r' r] by auto
  qed
qed

lemma chain_sum:
  fixes f :: "nat \<Rightarrow> nat"
  assumes "\<And>r. f r \<le> f (Suc r)"
  shows "(\<Sum>r < n. f (Suc r) - f r) = f n - f 0"
proof (induction n)
  case 0
  then show ?case by simp
next
  case (Suc n)
  have "f 0 \<le> f n" using assms by (rule lift_Suc_mono_le) simp
  then show ?case using Suc.IH assms[of n] by simp
qed

lemma end_idx_chain: "end_idx r W det = start_idx (Suc r) W det"
  by (simp add: end_idx_def start_idx_def index_range_chain)

lemma start_idx_mono: "start_idx r W det \<le> start_idx (Suc r) W det"
  by (simp add: start_idx_def index_range_mono)

lemma start_idx_first: "start_idx 0 W det = 0"
  by (simp add: start_idx_def index_range_first)

lemma start_idx_last: "0 < W \<Longrightarrow> start_idx W W det = x_pixels det * y_pixels det"
  by (simp add: start_idx_def index_range_last)

lemma range_size:
  "end_idx r W det - start_idx r W det =
     (if r < (x_pixels det * y_pixels det) mod W then (x_pixels det * y_pixels det) div W + 1
      else (x_pixels det * y_pixels det) div W)"
  by (simp add: end_idx_def start_idx_def index_range_snd)

lemma distribute_divmod:
  assumes "0 < W" "0 < length (betaRange det)"
  shows "distribute r W det =
     Inr (start_idx r W det div length (betaRange det), start_idx r W det mod length (betaRange det),
          end_idx r W det div length (betaRange det), end_idx r W det mod length (betaRange det))"
  using assms by (simp add: distribute_def Let_def start_idx_def end_idx_def split: prod.splits)

text \<open>
  C2. For a grid of \<open>total = x_pixels * y_pixels\<close> pixels and \<open>W \<ge> 1\<close> workers, with
  \<open>base = total div W\<close> and \<open>remainder = total mod W\<close>: the linear range of rank \<open>r\<close> has
  \<open>base + 1\<close> pixels when \<open>r < remainder\<close> and \<open>base\<close> pixels otherwise (an empty range
  has \<open>start_idx = end_idx\<close>); \<open>distribute\<close> returns its two ends as (row, column) pairs; the
  first range starts at 0, each range ends where the next one starts, the last ends at
  \<open>total\<close>; the ranges are pairwise disjoint, their union is \<open>[0, total)\<close> and their sizes add
  up to \<open>total\<close>.
\<close>

theorem distribute_partition:
  assumes "0 < W"
  shows "(\<forall>r < W.
            end_idx r W det - start_idx r W det =
              (if r < (x_pixels det * y_pixels det) mod W
               then (x_pixels det * y_pixels det) div W + 1
               else (x_pixels det * y_pixels det) div W) \<and>
            start_idx r W det \<le> end_idx r W det \<and>
            (0 < length (betaRange det) \<longrightarrow>
               (\<exists>sa sb ea eb. distribute r W det = Inr (sa, sb, ea, eb) \<and>
                  sb < length (betaRange det) \<and> eb < length (betaRange det) \<and>
                  sa * length (betaRange det) + sb = start_idx r W det \<and>
                  ea * length (betaRange det) + eb = end_idx r W det))) \<and>
         start_idx 0 W det = 0 \<and>
         end_idx (W - 1) W det = x_pixels det * y_pixels det \<and>
         (\<forall>r. Suc r < W \<longrightarrow> end_idx r W det = start_idx (Suc r) W det) \<and>
         (\<forall>r < W. \<forall>r' < W. r \<noteq> r' \<longrightarrow>
            {start_idx r W det ..< end_idx r W det} \<inter> {start_idx r' W det ..< end_idx r' W det} = {}) \<and>
         (\<Union>r \<in> {..<W}. {start_idx r W det ..< end_idx r W det}) = {0 ..< x_pixels det * y_pixels det} \<and>
         (\<Sum>r < W. end_idx r W det - start_idx r W det) = x_pixels det * y_pixels det"
proof -
  let ?s = "\<lambda>r. start_idx r W det"
  have mono: "\<And>r. ?s r \<le> ?s (Suc r)" by (rule start_idx_mono)
  have per_rank: "\<forall>r < W.
            end_idx r W det - start_idx r W det =
              (if r < (x_pixels det * y_pixels det) mod W
               then (x_pixels det * y_pixels det) div W + 1
               else (x_pixels det * y_pixels det) div W) \<and>
            start_idx r W det \<le> end_idx r W det \<and>
            (0 < length (betaRange det) \<longrightarrow>
               (\<exists>sa sb ea eb. distribute r W det = Inr (sa, sb, ea, eb) \<and>
                  sb < length (betaRange det) \<and> eb < length (betaRange det) \<and>
                  sa * length (betaRange det) + sb = start_idx r W det \<and>
                  ea * length (betaRange det) + eb = end_idx r W det))"
  proof (intro allI impI conjI)
    fix r
    show "end_idx r W det - start_idx r W det =
              (if r < (x_pixels det * y_pixels det) mod W
               then (x_pixels det * y_pixels det) div W + 1
               else (x_pixels det * y_pixels det) div W)"
      by (rule range_size)
    show "start_idx r W det \<le> end_idx r W det"
      by (simp add: end_idx_chain start_idx_mono)
    assume nb: "0 < length (betaRange det)"
    show "\<exists>sa sb ea eb. distribute r W det = Inr (sa, sb, ea, eb) \<and>
                  sb < length (betaRange det) \<and> eb < length (betaRange det) \<and>
                  sa * length (betaRange det) + sb = start_idx r W det \<and>
                  ea * length (betaRange det) + eb = end_idx r W det"
      using distribute_divmod[OF assms nb, of r] nb by simp
  qed
  have last: "end_idx (W - 1) W det = x_pixels det * y_pixels det"
    using assms start_idx_last[OF assms, of det] by (simp add: end_idx_chain)
  have chain: "\<forall>r. Suc r < W \<longrightarrow> end_idx r W det = start_idx (Suc r) W det"
    by (simp add: end_idx_chain)
  have disj: "\<forall>r < W. \<forall>r' < W. r \<noteq> r' \<longrightarrow>
            {start_idx r W det ..< end_idx r W det} \<inter> {start_idx r' W det ..< end_idx r' W det} = {}"
    using chain_disjoint[of ?s, OF mono] by (simp add: end_idx_chain)
  have un: "(\<Union>r \<in> {..<W}. {start_idx r W det ..< end_idx r W det}) = {0 ..< x_pixels det * y_pixels det}"
    using chain_union[of ?s W, OF mono] start_idx_last[OF assms, of det]
    by (simp add: end_idx_chain start_idx_first)
  have sm: "(\<Sum>r < W. end_idx r W det - start_idx r W det) = x_pixels det * y_pixels det"
    using chain_sum[of ?s W, OF mono] start_idx_last[OF assms, of det]
    by (simp add: end_idx_chain start_idx_first)
  show ?thesis
    using per_rank last chain disj un sm start_idx_first[of W det] by blast
qed

theorem distribute_partition_witness:
  "0 < length (betaRange ex_grid) \<and>
   distribute 0 3 ex_grid = Inr (0, 0, 1, 0) \<and>
   distribute 1 3 ex_grid = Inr (1, 0, 1, 1) \<and>
   distribute 2 3 ex_grid = Inr (1, 1, 2, 0) \<and>
   (\<exists>sa sb ea eb. distribute 1 3 ex_grid = Inr (sa, sb, ea, eb) \<and>
      sb < length (betaRange ex_grid) \<and> eb < length (betaRange ex_grid) \<and>
      sa * length (betaRange ex_grid) + sb = start_idx 1 3 ex_grid \<and>
      ea * length (betaRange ex_grid) + eb = end_idx 1 3 ex_grid) \<and>
   end_idx 0 3 ex_grid - start_idx 0 3 ex_grid = 2 \<and>
   end_idx 2 3 ex_grid - start_idx 2 3 ex_grid = 1 \<and>
   (\<Union>r \<in> {..<3}. {start_idx r 3 ex_grid ..< end_idx r 3 ex_grid}) = {0 ..< 4} \<and>
   (\<Sum>r < 3. end_idx r 3 ex_grid - start_idx r 3 ex_grid) = 4"
proof -
  have w: "0 < (3::nat)" by simp
  have len: "length (betaRange ex_grid) = 2" by (simp add: ex_grid_def)
  have tot: "x_pixels ex_grid * y_pixels ex_grid = 4" by (simp add: ex_grid_def)
  note t = distribute_partition[OF w, of ex_grid, unfolded tot]
  have d0: "distribute 0 3 ex_grid = Inr (0, 0, 1, 0)"
    by (simp add: distribute_def index_range_def Let_def len tot)
  have d1: "distribute 1 3 ex_grid = Inr (1, 0, 1, 1)"
    by (simp add: distribute_def index_range_def Let_def len tot)
  have d2: "distribute 2 3 ex_grid = Inr (1, 1, 2, 0)"
    by (simp add: distribute_def index_range_def Let_def len tot)
  note pr = t[THEN conjunct1, rule_format]
  have s0: "end_idx 0 3 ex_grid - start_idx 0 3 ex_grid = 2"
    using pr[of 0, THEN conjunct1] by simp
  have s2: "end_idx 2 3 ex_grid - start_idx 2 3 ex_grid = 1"
    using pr[of 2, THEN conjunct1] by simp
  note rest = t[THEN conjunct2, THEN conjunct2, THEN conjunct2, THEN conjunct2, THEN conjunct2]
  have u: "(\<Union>r \<in> {..<3}. {start_idx r 3 ex_grid ..< end_idx r 3 ex_grid}) = {0 ..< 4}"
    by (rule rest[THEN conjunct1])
  have sm: "(\<Sum>r < 3. end_idx r 3 ex_grid - start_idx r 3 ex_grid) = 4"
    by (rule rest[THEN conjunct2])
  have nb: "0 < length (betaRange ex_grid)" by (simp add: len)
  note rc = pr[of 1, THEN conjunct2, THEN conjunct2, THEN mp, OF _ nb]
  have e1: "\<exists>sa sb ea eb. distribute 1 3 ex_grid = Inr (sa, sb, ea, eb) \<and>
      sb < length (betaRange ex_grid) \<and> eb < length (betaRange ex_grid) \<and>
      sa * length (betaRange ex_grid) + sb = start_idx 1 3 ex_grid \<and>
      ea * length (betaRange ex_grid) + eb = end_idx 1 3 ex_grid"
    by (rule rc) simp
  show ?thesis using nb d0 d1 d2 e1 s0 s2 u sm by (intro conjI)
qed

section \<open>Properties of the image assembler and the reducer\<close>

lemma table_length: "length (table n m f) = n"
  by (simp add: table_def)

lemma table_row: "i < n \<Longrightarrow> table n m f ! i = map (\<lambda>j. f (i, j)) [0..<m]"
  by (simp add: table_def)

lemma table_nth: "i < n \<Longrightarrow> j < m \<Longrightarrow> table n m f ! i ! j = f (i, j)"
  by (simp add: table_def)

lemma table_cong:
  assumes "\<And>i j. i < n \<Longrightarrow> j < m \<Longrightarrow> f (i, j) = g (i, j)"
  shows "table n m f = table n m g"
  using assms by (simp add: table_def)

lemma zeros_table: "zeros n m = table n m (\<lambda>q. 0)"
  by (simp add: zeros_def table_def map_replicate_const)

lemma setitem2_table:
  assumes "i < n" "j < m"
  shows "setitem2 (table n m f) (Some i) (Some j) v = Inr (table n m (f((i, j) := v)))"
proof -
  have row: "(table n m f ! i)[j := v] = map (\<lambda>j'. (f((i, j) := v)) (i, j')) [0..<m]"
    using assms by (auto simp: table_row intro!: nth_equalityI simp: nth_list_update)
  have "(table n m f)[i := (table n m f ! i)[j := v]] = table n m (f((i, j) := v))"
  proof (rule nth_equalityI)
    show "length ((table n m f)[i := (table n m f ! i)[j := v]]) = length (table n m (f((i, j) := v)))"
      by (simp add: table_length)
  next
    fix k
    assume "k < length ((table n m f)[i := (table n m f ! i)[j := v]])"
    then have k: "k < n" by (simp add: table_length)
    show "(table n m f)[i := (table n m f ! i)[j := v]] ! k = table n m (f((i, j) := v)) ! k"
    proof (cases "k = i")
      case True
      then show ?thesis using k row by (simp add: table_length table_row)
    next
      case False
      then show ?thesis using k by (simp add: table_row)
    qed
  qed
  then show ?thesis using assms by (simp add: setitem2_def table_length table_row)
qed

lemma add_image_table:
  "add_image (table n m f) (table n m g) = table n m (\<lambda>q. f q + g q)"
proof -
  have row: "\<And>i. map2 (+) (map (\<lambda>j. f (i, j)) [0..<m]) (map (\<lambda>j. g (i, j)) [0..<m]) =
      map (\<lambda>j. f (i, j) + g (i, j)) [0..<m]"
    by (auto intro!: nth_equalityI)
  show ?thesis
    unfolding add_image_def table_def
    by (auto intro!: nth_equalityI simp: row)
qed

lemma foldl_add_image_table:
  "foldl add_image (table n m f) (map (\<lambda>r. table n m (g r)) rs) =
     table n m (\<lambda>q. f q + sum_list (map (\<lambda>r. g r q) rs))"
proof (induction rs arbitrary: f)
  case Nil
  then show ?case by simp
next
  case (Cons r rs)
  show ?case
    by (simp add: add_image_table Cons.IH add.assoc)
qed

lemma geo_integ_keeps_pixel:
  assumes "geo_integ odeint p bh acc det = Inr p'"
  shows "ph_i p' = ph_i p \<and> ph_j p' = ph_j p"
  using assms
  by (auto simp: geo_integ_def Let_def bind_err_def split: option.splits sum.splits if_splits)

lemma new_photon_pixel:
  assumes "new_photon bh det (i, j) = Inr p"
  shows "ph_i p = Some i \<and> ph_j p = Some j \<and> i < length (alphaRange det) \<and> j < length (betaRange det)"
  using assms
  by (auto simp: new_photon_def getitem_def bind_err_def Let_def initial_conditions_def Photon_def
      split: prod.splits if_splits)

lemma mapM_err_Cons_Inr:
  "mapM_err f (x # xs) = Inr zs \<longleftrightarrow> (\<exists>y ys. f x = Inr y \<and> mapM_err f xs = Inr ys \<and> zs = y # ys)"
  by (auto split: sum.splits)

lemma mapM_err_success:
  assumes "\<forall>x \<in> set xs. \<exists>y. f x = Inr y"
  shows "\<exists>ys. mapM_err f xs = Inr ys"
  using assms by (induction xs) auto

lemma loop_step:
  assumes "photon_flux odeint bh acc det p = Inr v" "ph_i p = Some i" "ph_j p = Some j"
    and "setitem2 data (Some i) (Some j) v = Inr data'"
  shows "\<exists>p'. create_image_loop odeint bh acc det (p # ps) data =
           (case create_image_loop odeint bh acc det ps data' of
              Inl e \<Rightarrow> Inl e | Inr (ps', d) \<Rightarrow> Inr (p' # ps', d))"
proof -
  from assms(1) obtain p' f where p': "geo_integ odeint p bh acc det = Inr p'" "fP p' = Some f"
      "energy_flux acc (x_r f) = Inr v"
    by (auto simp: photon_flux_def split: sum.splits option.splits)
  have "ph_i p' = Some i" "ph_j p' = Some j"
    using geo_integ_keeps_pixel[OF p'(1)] assms(2,3) by simp_all
  then have "create_image_loop odeint bh acc det (p # ps) data =
           (case create_image_loop odeint bh acc det ps data' of
              Inl e \<Rightarrow> Inl e | Inr (ps', d) \<Rightarrow> Inr (p' # ps', d))"
    using p' assms(4) by simp
  then show ?thesis by blast
qed

lemma loop_fill:
  assumes "\<forall>q \<in> set P. fst q < n \<and> snd q < m \<and> (\<exists>v. pixel_flux odeint bh acc det q = Inr v)"
    and "mapM_err (new_photon bh det) P = Inr ps"
  shows "\<exists>ps'. create_image_loop odeint bh acc det ps (table n m f0) =
           Inr (ps', table n m (\<lambda>q. if q \<in> set P then projr (pixel_flux odeint bh acc det q) else f0 q))"
  using assms
proof (induction P arbitrary: ps f0)
  case Nil
  then show ?case by simp
next
  case (Cons q P)
  obtain i j where q: "q = (i, j)" by (cases q)
  from Cons.prems(2)[THEN mapM_err_Cons_Inr[THEN iffD1]]
  obtain p ps0 where p: "new_photon bh det q = Inr p"
      "mapM_err (new_photon bh det) P = Inr ps0" "ps = p # ps0"
    by blast
  from Cons.prems(1) obtain v where v: "pixel_flux odeint bh acc det q = Inr v" and ij: "i < n" "j < m"
    using q by auto
  have pf: "photon_flux odeint bh acc det p = Inr v" using v p(1) by (simp add: pixel_flux_def)
  have pix: "ph_i p = Some i" "ph_j p = Some j" using new_photon_pixel[OF p(1)[unfolded q]] by simp_all
  let ?f1 = "f0(q := v)"
  have set1: "setitem2 (table n m f0) (Some i) (Some j) v = Inr (table n m ?f1)"
    using setitem2_table[OF ij] q by simp
  from loop_step[OF pf pix set1, of ps0] obtain p' where
    step: "create_image_loop odeint bh acc det (p # ps0) (table n m f0) =
           (case create_image_loop odeint bh acc det ps0 (table n m ?f1) of
              Inl e \<Rightarrow> Inl e | Inr (ps', d) \<Rightarrow> Inr (p' # ps', d))"
    by blast
  have rest: "\<forall>q \<in> set P. fst q < n \<and> snd q < m \<and> (\<exists>v. pixel_flux odeint bh acc det q = Inr v)"
    using Cons.prems(1) by simp
  from Cons.IH[OF rest p(2), of ?f1] obtain ps1 where
    ih: "create_image_loop odeint bh acc det ps0 (table n m ?f1) =
           Inr (ps1, table n m (\<lambda>q'. if q' \<in> set P then projr (pixel_flux odeint bh acc det q') else ?f1 q'))"
    by blast
  have eq: "(\<lambda>q'. if q' \<in> set P then projr (pixel_flux odeint bh acc det q') else ?f1 q') =
      (\<lambda>q'. if q' \<in> set (q # P) then projr (pixel_flux odeint bh acc det q') else f0 q')"
    using v by (auto simp: fun_eq_iff)
  show ?case using step ih p(3) unfolding eq by simp
qed

lemma loop_success_pixels:
  assumes "mapM_err (new_photon bh det) P = Inr ps"
    and "create_image_loop odeint bh acc det ps data = Inr r"
  shows "\<forall>q \<in> set P. \<exists>v. pixel_flux odeint bh acc det q = Inr v"
  using assms
proof (induction P arbitrary: ps data r)
  case Nil
  then show ?case by simp
next
  case (Cons q P)
  from Cons.prems(1)[THEN mapM_err_Cons_Inr[THEN iffD1]]
  obtain p ps0 where p: "new_photon bh det q = Inr p"
      "mapM_err (new_photon bh det) P = Inr ps0" "ps = p # ps0"
    by blast
  from Cons.prems(2)[unfolded p(3)] obtain p' f v data' r' where
    s: "geo_integ odeint p bh acc det = Inr p'" "fP p' = Some f" "energy_flux acc (x_r f) = Inr v"
       "create_image_loop odeint bh acc det ps0 data' = Inr r'"
    by (auto split: sum.splits option.splits)
  have "pixel_flux odeint bh acc det q = Inr v"
    using p(1) s(1,2,3) by (simp add: pixel_flux_def photon_flux_def)
  then show ?case using Cons.IH[OF p(2) s(4)] by auto
qed

lemma range_pixels_aux:
  fixes nb qs rs qe re i j :: nat
  assumes rs: "rs < nb" and re: "re < nb"
  shows "(qs \<le> i \<and> i \<le> qe \<and> (if i = qs then rs else 0) \<le> j \<and>
          j < (if i = qe then re else nb)) \<longleftrightarrow>
         (j < nb \<and> qs * nb + rs \<le> i * nb + j \<and> i * nb + j < qe * nb + re)"
proof
  assume L: "qs \<le> i \<and> i \<le> qe \<and> (if i = qs then rs else 0) \<le> j \<and>
          j < (if i = qe then re else nb)"
  have j: "j < nb" using L re by (cases "i = qe") simp_all
  have lo: "qs * nb + rs \<le> i * nb + j"
  proof (cases "i = qs")
    case True
    then show ?thesis using L by simp
  next
    case False
    then have "Suc qs \<le> i" using L by simp
    then have "Suc qs * nb \<le> i * nb" by (rule mult_le_mono1)
    then have "qs * nb + nb \<le> i * nb" by simp
    then show ?thesis using rs by linarith
  qed
  have hi: "i * nb + j < qe * nb + re"
  proof (cases "i = qe")
    case True
    then show ?thesis using L by simp
  next
    case False
    then have "Suc i \<le> qe" using L by simp
    then have "Suc i * nb \<le> qe * nb" by (rule mult_le_mono1)
    then have "i * nb + nb \<le> qe * nb" by simp
    then show ?thesis using j by linarith
  qed
  show "j < nb \<and> qs * nb + rs \<le> i * nb + j \<and> i * nb + j < qe * nb + re"
    using j lo hi by simp
next
  assume R: "j < nb \<and> qs * nb + rs \<le> i * nb + j \<and> i * nb + j < qe * nb + re"
  have a: "qs \<le> i"
  proof (rule ccontr)
    assume "\<not> qs \<le> i"
    then have "Suc i \<le> qs" by simp
    then have "Suc i * nb \<le> qs * nb" by (rule mult_le_mono1)
    then have "i * nb + nb \<le> qs * nb" by simp
    then show False using R by linarith
  qed
  have b: "i \<le> qe"
  proof (rule ccontr)
    assume "\<not> i \<le> qe"
    then have "Suc qe \<le> i" by simp
    then have "Suc qe * nb \<le> i * nb" by (rule mult_le_mono1)
    then have "qe * nb + nb \<le> i * nb" by simp
    then show False using R re by linarith
  qed
  have c: "(if i = qs then rs else 0) \<le> j"
  proof (cases "i = qs")
    case True
    then show ?thesis using R by simp
  next
    case False
    then show ?thesis by simp
  qed
  have d: "j < (if i = qe then re else nb)"
  proof (cases "i = qe")
    case True
    then show ?thesis using R by simp
  next
    case False
    then show ?thesis using R by simp
  qed
  show "qs \<le> i \<and> i \<le> qe \<and> (if i = qs then rs else 0) \<le> j \<and>
          j < (if i = qe then re else nb)"
    using a b c d by simp
qed

lemma range_pixels:
  fixes nb s e i j :: nat
  assumes nb: "0 < nb"
  shows "(s div nb \<le> i \<and> i \<le> e div nb \<and> (if i = s div nb then s mod nb else 0) \<le> j \<and>
          j < (if i = e div nb then e mod nb else nb)) \<longleftrightarrow>
         (j < nb \<and> s \<le> i * nb + j \<and> i * nb + j < e)"
proof -
  have "s mod nb < nb" "e mod nb < nb" using nb by simp_all
  from range_pixels_aux[OF this, of "s div nb" i "e div nb" j]
  show ?thesis by (simp only: div_mult_mod_eq)
qed

lemma in_concat_rows:
  "(i, j) \<in> set (concat (map (\<lambda>i'. map (\<lambda>j'. (i', j')) [lo i' ..< hi i']) [a ..< b])) \<longleftrightarrow>
     a \<le> i \<and> i < b \<and> lo i \<le> j \<and> j < hi i"
proof
  assume "(i, j) \<in> set (concat (map (\<lambda>i'. map (\<lambda>j'. (i', j')) [lo i' ..< hi i']) [a ..< b]))"
  then show "a \<le> i \<and> i < b \<and> lo i \<le> j \<and> j < hi i" by auto
next
  assume r: "a \<le> i \<and> i < b \<and> lo i \<le> j \<and> j < hi i"
  then have "i \<in> {a ..< b}" "(i, j) \<in> Pair i ` {lo i ..< hi i}" by auto
  then have "\<exists>x \<in> {a ..< b}. (i, j) \<in> Pair x ` {lo x ..< hi x}" by blast
  then show "(i, j) \<in> set (concat (map (\<lambda>i'. map (\<lambda>j'. (i', j')) [lo i' ..< hi i']) [a ..< b]))"
    by simp
qed

lemma pixel_indices_set:
  "(i, j) \<in> set (pixel_indices (Image sa sb ea eb) det) \<longleftrightarrow>
     sa \<le> i \<and> i \<le> ea \<and> (if i = sa then sb else 0) \<le> j \<and>
     j < (if i = ea then eb else length (betaRange det))"
proof -
  have sel: "start_alpha (Image sa sb ea eb) = sa" "start_beta (Image sa sb ea eb) = sb"
    "end_alpha (Image sa sb ea eb) = ea" "end_beta (Image sa sb ea eb) = eb"
    by (simp_all add: Image_def)
  have step: "(i, j) \<in> set (pixel_indices (Image sa sb ea eb) det) \<longleftrightarrow>
     sa \<le> i \<and> i < ea + 1 \<and> (if i = sa then sb else 0) \<le> j \<and>
     j < (if i = ea then eb else length (betaRange det))"
    unfolding pixel_indices_def Let_def sel by (rule in_concat_rows)
  have "i < ea + 1 \<longleftrightarrow> i \<le> ea" by auto
  with step show ?thesis by (simp only:)
qed

lemma rank_pixels_set:
  assumes "0 < length (betaRange det)"
  shows "(i, j) \<in> set (rank_pixels det r W) \<longleftrightarrow>
     j < length (betaRange det) \<and> start_idx r W det \<le> i * length (betaRange det) + j \<and>
     i * length (betaRange det) + j < end_idx r W det"
  unfolding rank_pixels_def pixel_indices_set
  by (rule range_pixels[OF assms])

lemma start_idx_le:
  assumes "a \<le> b"
  shows "start_idx a W det \<le> start_idx b W det"
  using start_idx_mono assms by (rule lift_Suc_mono_le)

lemma end_idx_le_total:
  assumes "r < W"
  shows "end_idx r W det \<le> x_pixels det * y_pixels det"
proof -
  have "0 < W" using assms by simp
  then have "start_idx W W det = x_pixels det * y_pixels det" by (rule start_idx_last)
  moreover have "start_idx (Suc r) W det \<le> start_idx W W det"
    using assms by (intro start_idx_le) simp
  ultimately show ?thesis by (simp add: end_idx_chain)
qed

lemma rank_pixels_bounds:
  assumes "0 < length (betaRange det)" "length (betaRange det) = y_pixels det" "r < W"
    and "(i, j) \<in> set (rank_pixels det r W)"
  shows "i < x_pixels det \<and> j < y_pixels det"
proof -
  from assms(4) have j: "j < y_pixels det" and lt: "i * y_pixels det + j < end_idx r W det"
    using rank_pixels_set[OF assms(1), of i j r W] assms(2) by simp_all
  have "i * y_pixels det + j < x_pixels det * y_pixels det"
    using lt end_idx_le_total[OF assms(3), of det] by linarith
  then have "i * y_pixels det < x_pixels det * y_pixels det" by linarith
  then have "i < x_pixels det" by simp
  then show ?thesis using j by simp
qed

lemma worker_image_unfold:
  assumes "0 < W" "0 < length (betaRange det)"
  shows "worker_image odeint bh acc det r W =
     (case mapM_err (new_photon bh det) (rank_pixels det r W) of
        Inl e \<Rightarrow> Inl e
      | Inr ps \<Rightarrow>
          (case create_image_loop odeint bh acc det ps (zeros (x_pixels det) (y_pixels det)) of
             Inl e \<Rightarrow> Inl e
           | Inr (ps', d) \<Rightarrow> Inr d))"
  unfolding worker_image_def distribute_divmod[OF assms]
  by (simp add: bind_err_def create_photons_def create_image_def rank_pixels_def
      split: sum.splits prod.splits)

lemma pixel_flux_new_photon:
  assumes "pixel_flux odeint bh acc det q = Inr v"
  shows "\<exists>p. new_photon bh det q = Inr p"
  using assms by (auto simp: pixel_flux_def split: sum.splits)

lemma worker_image_ok:
  assumes "0 < W" "0 < length (betaRange det)" "length (betaRange det) = y_pixels det" "r < W"
    and ok: "\<forall>q \<in> set (rank_pixels det r W). \<exists>v. pixel_flux odeint bh acc det q = Inr v"
  shows "worker_image odeint bh acc det r W =
     Inr (table (x_pixels det) (y_pixels det)
            (\<lambda>q. if q \<in> set (rank_pixels det r W) then projr (pixel_flux odeint bh acc det q) else 0))"
proof -
  have "\<forall>q \<in> set (rank_pixels det r W). \<exists>p. new_photon bh det q = Inr p"
    using ok pixel_flux_new_photon by blast
  then obtain ps where ps: "mapM_err (new_photon bh det) (rank_pixels det r W) = Inr ps"
    using mapM_err_success by blast
  have bnd: "\<forall>q \<in> set (rank_pixels det r W). fst q < x_pixels det \<and> snd q < y_pixels det \<and>
      (\<exists>v. pixel_flux odeint bh acc det q = Inr v)"
  proof
    fix q assume q: "q \<in> set (rank_pixels det r W)"
    obtain i j where ij: "q = (i, j)" by (cases q)
    show "fst q < x_pixels det \<and> snd q < y_pixels det \<and> (\<exists>v. pixel_flux odeint bh acc det q = Inr v)"
      using rank_pixels_bounds[OF assms(2,3,4) q[unfolded ij]] ok q ij by simp
  qed
  from loop_fill[OF bnd ps, of "\<lambda>q. 0"] obtain ps' where
    "create_image_loop odeint bh acc det ps (table (x_pixels det) (y_pixels det) (\<lambda>q. 0)) =
       Inr (ps', table (x_pixels det) (y_pixels det)
            (\<lambda>q. if q \<in> set (rank_pixels det r W) then projr (pixel_flux odeint bh acc det q) else 0))"
    by blast
  then show ?thesis
    unfolding worker_image_unfold[OF assms(1,2)] ps zeros_table by simp
qed

lemma worker_image_pixels:
  assumes "0 < W" "0 < length (betaRange det)"
    and "worker_image odeint bh acc det r W = Inr d"
  shows "\<forall>q \<in> set (rank_pixels det r W). \<exists>v. pixel_flux odeint bh acc det q = Inr v"
proof -
  from assms(3)[unfolded worker_image_unfold[OF assms(1,2)]]
  obtain ps res where ps: "mapM_err (new_photon bh det) (rank_pixels det r W) = Inr ps"
    and "create_image_loop odeint bh acc det ps (zeros (x_pixels det) (y_pixels det)) = Inr res"
    by (auto split: sum.splits)
  then show ?thesis by (rule loop_success_pixels)
qed

lemma worker_image_needs_columns:
  assumes "worker_image odeint bh acc det r W = Inr d"
  shows "0 < W \<and> 0 < length (betaRange det)"
  using assms
  by (auto simp: worker_image_def distribute_def bind_err_def Let_def split: if_splits prod.splits)

lemma chain_prefix_sum:
  fixes s :: "nat \<Rightarrow> nat" and v :: real
  assumes "\<And>r. s r \<le> s (Suc r)"
  shows "sum_list (map (\<lambda>r. if s r \<le> k \<and> k < s (Suc r) then v else 0) [0..<m]) =
           (if s 0 \<le> k \<and> k < s m then v else 0)"
proof (induction m)
  case 0
  then show ?case by simp
next
  case (Suc m)
  have le: "s 0 \<le> s m" using assms by (rule lift_Suc_mono_le) simp
  show ?case using Suc.IH le assms[of m] by auto
qed

lemma rank_buffer_sum:
  assumes W: "0 < W" and nb: "0 < length (betaRange det)"
    and len: "length (betaRange det) = y_pixels det"
    and i: "i < x_pixels det" and j: "j < y_pixels det"
  shows "sum_list (map (\<lambda>r. rank_buffer odeint bh acc det r W (i, j)) [0..<W]) =
           projr (pixel_flux odeint bh acc det (i, j))"
proof -
  let ?k = "i * y_pixels det + j"
  let ?v = "projr (pixel_flux odeint bh acc det (i, j))"
  let ?s = "\<lambda>r. start_idx r W det"
  have "Suc i * y_pixels det \<le> x_pixels det * y_pixels det"
    using i by (intro mult_le_mono1) simp
  then have k: "?k < x_pixels det * y_pixels det" using j by simp
  have each: "\<And>r. rank_buffer odeint bh acc det r W (i, j) =
      (if ?s r \<le> ?k \<and> ?k < ?s (Suc r) then ?v else 0)"
    using rank_pixels_set[OF nb, of i j _ W] j len
    by (simp add: rank_buffer_def end_idx_chain)
  have "sum_list (map (\<lambda>r. rank_buffer odeint bh acc det r W (i, j)) [0..<W]) =
      sum_list (map (\<lambda>r. if ?s r \<le> ?k \<and> ?k < ?s (Suc r) then ?v else 0) [0..<W])"
    by (simp only: each)
  also have "\<dots> = (if ?s 0 \<le> ?k \<and> ?k < ?s W then ?v else 0)"
    by (rule chain_prefix_sum) (rule start_idx_mono)
  also have "\<dots> = ?v"
    using k by (simp add: start_idx_first start_idx_last[OF W])
  finally show ?thesis .
qed

lemma single_rank_pixels:
  assumes nb: "0 < length (betaRange det)" and len: "length (betaRange det) = y_pixels det"
  shows "(i, j) \<in> set (rank_pixels det 0 1) \<longleftrightarrow>
           j < y_pixels det \<and> i * y_pixels det + j < x_pixels det * y_pixels det"
  using rank_pixels_set[OF nb, of i j 0 1] len
  by (simp add: start_idx_first end_idx_chain start_idx_last)

lemma grid_pixel_in_single:
  assumes nb: "0 < length (betaRange det)" and len: "length (betaRange det) = y_pixels det"
    and i: "i < x_pixels det" and j: "j < y_pixels det"
  shows "(i, j) \<in> set (rank_pixels det 0 1)"
proof -
  have "Suc i * y_pixels det \<le> x_pixels det * y_pixels det"
    using i by (intro mult_le_mono1) simp
  then have "i * y_pixels det + j < x_pixels det * y_pixels det" using j by simp
  then show ?thesis using single_rank_pixels[OF nb len] j by simp
qed

lemma rank_pixels_subset:
  assumes nb: "0 < length (betaRange det)" and len: "length (betaRange det) = y_pixels det"
    and r: "r < W"
  shows "set (rank_pixels det r W) \<subseteq> set (rank_pixels det 0 1)"
proof
  fix q assume q: "q \<in> set (rank_pixels det r W)"
  obtain i j where ij: "q = (i, j)" by (cases q)
  from rank_pixels_bounds[OF nb len r q[unfolded ij]]
  show "q \<in> set (rank_pixels det 0 1)"
    unfolding ij using grid_pixel_in_single[OF nb len] by simp
qed

lemma single_pixel_in_some_rank:
  assumes W: "0 < W" and nb: "0 < length (betaRange det)"
    and len: "length (betaRange det) = y_pixels det"
    and q: "q \<in> set (rank_pixels det 0 1)"
  shows "\<exists>r < W. q \<in> set (rank_pixels det r W)"
proof -
  obtain i j where ij: "q = (i, j)" by (cases q)
  let ?k = "i * y_pixels det + j"
  let ?s = "\<lambda>r. start_idx r W det"
  from q have j: "j < y_pixels det" and k: "?k < x_pixels det * y_pixels det"
    unfolding ij using single_rank_pixels[OF nb len, of i j] by simp_all
  have un: "(\<Union>r \<in> {..<W}. {?s r ..< ?s (Suc r)}) = {?s 0 ..< ?s W}"
    by (rule chain_union) (rule start_idx_mono)
  have "?k \<in> {?s 0 ..< ?s W}"
    using k by (simp add: start_idx_first start_idx_last[OF W])
  then have "?k \<in> (\<Union>r \<in> {..<W}. {?s r ..< ?s (Suc r)})" by (simp only: un)
  then obtain r where "r \<in> {..<W}" "?k \<in> {?s r ..< ?s (Suc r)}" by blast
  then have r: "r < W" "?s r \<le> ?k" "?k < ?s (Suc r)" by simp_all
  then have "(i, j) \<in> set (rank_pixels det r W)"
    using rank_pixels_set[OF nb, of i j r W] j len by (simp add: end_idx_chain)
  then show ?thesis using r(1) ij by blast
qed

lemma sum_axis0_rank_buffers:
  assumes W: "0 < W" and nb: "0 < length (betaRange det)"
    and len: "length (betaRange det) = y_pixels det"
  shows "sum_axis0 (map (\<lambda>r. table (x_pixels det) (y_pixels det) (rank_buffer odeint bh acc det r W)) [0..<W]) =
         table (x_pixels det) (y_pixels det) (rank_buffer odeint bh acc det 0 1)"
proof -
  let ?g = "\<lambda>r. rank_buffer odeint bh acc det r W"
  let ?X = "x_pixels det" and ?Y = "y_pixels det"
  have upt: "[0..<W] = 0 # [Suc 0..<W]" using W by (simp add: upt_conv_Cons)
  have "sum_axis0 (map (\<lambda>r. table ?X ?Y (?g r)) [0..<W]) =
      foldl add_image (table ?X ?Y (?g 0)) (map (\<lambda>r. table ?X ?Y (?g r)) [Suc 0..<W])"
    by (subst upt) (simp add: sum_axis0_def)
  also have "\<dots> = table ?X ?Y (\<lambda>q. ?g 0 q + sum_list (map (\<lambda>r. ?g r q) [Suc 0..<W]))"
    by (rule foldl_add_image_table)
  also have "\<dots> = table ?X ?Y (\<lambda>q. sum_list (map (\<lambda>r. ?g r q) [0..<W]))"
  proof -
    have "\<And>q. sum_list (map (\<lambda>r. ?g r q) [0..<W]) =
        ?g 0 q + sum_list (map (\<lambda>r. ?g r q) [Suc 0..<W])"
      by (subst upt) simp
    then show ?thesis by (simp only:)
  qed
  also have "\<dots> = table ?X ?Y (rank_buffer odeint bh acc det 0 1)"
  proof (rule table_cong)
    fix i j assume ij: "i < ?X" "j < ?Y"
    show "sum_list (map (\<lambda>r. ?g r (i, j)) [0..<W]) = rank_buffer odeint bh acc det 0 1 (i, j)"
      using rank_buffer_sum[OF W nb len ij] grid_pixel_in_single[OF nb len ij]
      by (simp add: rank_buffer_def)
  qed
  finally show ?thesis .
qed

lemma worker_image_buffer:
  assumes "0 < W" "0 < length (betaRange det)" "length (betaRange det) = y_pixels det" "r < W"
    and ok: "\<forall>q \<in> set (rank_pixels det r W). \<exists>v. pixel_flux odeint bh acc det q = Inr v"
  shows "worker_image odeint bh acc det r W =
     Inr (table (x_pixels det) (y_pixels det) (rank_buffer odeint bh acc det r W))"
proof -
  have "rank_buffer odeint bh acc det r W =
      (\<lambda>q. if q \<in> set (rank_pixels det r W) then projr (pixel_flux odeint bh acc det q) else 0)"
    by (simp add: fun_eq_iff rank_buffer_def)
  then show ?thesis using worker_image_ok[OF assms] by simp
qed

lemma gather_rank_buffers:
  assumes W: "0 < W" and nb: "0 < length (betaRange det)"
    and len: "length (betaRange det) = y_pixels det"
    and bufs: "length bufs = W"
      "\<forall>r < W. bufs ! r = table (x_pixels det) (y_pixels det) (rank_buffer odeint bh acc det r W)"
  shows "gather_and_process_data bufs det 0 =
     Some (table (x_pixels det) (y_pixels det) (rank_buffer odeint bh acc det 0 1))"
proof -
  have "bufs = map (\<lambda>r. table (x_pixels det) (y_pixels det) (rank_buffer odeint bh acc det r W)) [0..<W]"
    using bufs by (intro nth_equalityI) simp_all
  then show ?thesis
    using sum_axis0_rank_buffers[OF W nb len, of odeint bh acc]
    by (simp add: gather_and_process_data_def)
qed

text \<open>
  C3. For \<open>W \<ge> 1\<close> workers on a detector whose \<open>betaRange\<close> has one entry per pixel column:
  the single worker assembling the full grid returns the image \<open>full\<close> exactly when the \<open>W\<close>
  workers, each running \<open>create_photons\<close> and \<open>create_image\<close> on the range that \<open>distribute\<close>
  gives it, all return a buffer and the elementwise sum of the \<open>W\<close> buffers on the root is
  \<open>full\<close>; and every buffer is zero at every pixel outside the linear range of its rank.
  So each pixel is recovered exactly once, and the reduced image does not depend on \<open>W\<close>.
\<close>

theorem worker_count_invariance:
  assumes W: "0 < W" and len: "length (betaRange det) = y_pixels det"
  shows "(worker_image odeint bh acc det 0 1 = Inr full \<longleftrightarrow>
          (\<exists>bufs. length bufs = W \<and>
             (\<forall>r < W. worker_image odeint bh acc det r W = Inr (bufs ! r)) \<and>
             gather_and_process_data bufs det 0 = Some full)) \<and>
         (\<forall>r < W. \<forall>d. worker_image odeint bh acc det r W = Inr d \<longrightarrow>
            (\<forall>i < x_pixels det. \<forall>j < y_pixels det.
               \<not> (start_idx r W det \<le> i * y_pixels det + j \<and>
                  i * y_pixels det + j < end_idx r W det) \<longrightarrow> d ! i ! j = 0))"
proof (intro conjI iffI allI impI)
  let ?X = "x_pixels det" and ?Y = "y_pixels det"
  let ?buf = "\<lambda>r. table ?X ?Y (rank_buffer odeint bh acc det r W)"
  assume single: "worker_image odeint bh acc det 0 1 = Inr full"
  then have nb: "0 < length (betaRange det)" using worker_image_needs_columns by blast
  have one: "0 < (1::nat)" by simp
  have ok1: "\<forall>q \<in> set (rank_pixels det 0 1). \<exists>v. pixel_flux odeint bh acc det q = Inr v"
    using worker_image_pixels[OF one nb single] .
  have full: "full = table ?X ?Y (rank_buffer odeint bh acc det 0 1)"
    using worker_image_buffer[OF one nb len one ok1] single by simp
  have each: "\<forall>r < W. worker_image odeint bh acc det r W = Inr (?buf r)"
  proof (intro allI impI)
    fix r assume r: "r < W"
    have "\<forall>q \<in> set (rank_pixels det r W). \<exists>v. pixel_flux odeint bh acc det q = Inr v"
      using ok1 rank_pixels_subset[OF nb len r] by blast
    then show "worker_image odeint bh acc det r W = Inr (?buf r)"
      by (rule worker_image_buffer[OF W nb len r])
  qed
  let ?bufs = "map ?buf [0..<W]"
  have "length ?bufs = W" by simp
  moreover have "\<forall>r < W. worker_image odeint bh acc det r W = Inr (?bufs ! r)"
    using each by simp
  moreover have "gather_and_process_data ?bufs det 0 = Some full"
    unfolding full by (rule gather_rank_buffers[OF W nb len]) simp_all
  ultimately show "\<exists>bufs. length bufs = W \<and>
             (\<forall>r < W. worker_image odeint bh acc det r W = Inr (bufs ! r)) \<and>
             gather_and_process_data bufs det 0 = Some full"
    by blast
next
  let ?X = "x_pixels det" and ?Y = "y_pixels det"
  assume "\<exists>bufs. length bufs = W \<and>
             (\<forall>r < W. worker_image odeint bh acc det r W = Inr (bufs ! r)) \<and>
             gather_and_process_data bufs det 0 = Some full"
  then obtain bufs where bufs: "length bufs = W"
      "\<forall>r < W. worker_image odeint bh acc det r W = Inr (bufs ! r)"
      "gather_and_process_data bufs det 0 = Some full"
    by blast
  have nb: "0 < length (betaRange det)"
    using bufs(2) W worker_image_needs_columns by blast
  have one: "0 < (1::nat)" by simp
  have okr: "\<And>r. r < W \<Longrightarrow> \<forall>q \<in> set (rank_pixels det r W). \<exists>v. pixel_flux odeint bh acc det q = Inr v"
    using worker_image_pixels[OF W nb] bufs(2) by blast
  have ok1: "\<forall>q \<in> set (rank_pixels det 0 1). \<exists>v. pixel_flux odeint bh acc det q = Inr v"
  proof
    fix q assume "q \<in> set (rank_pixels det 0 1)"
    from single_pixel_in_some_rank[OF W nb len this] obtain r where "r < W" "q \<in> set (rank_pixels det r W)"
      by blast
    then show "\<exists>v. pixel_flux odeint bh acc det q = Inr v" using okr by blast
  qed
  have "\<forall>r < W. bufs ! r = table ?X ?Y (rank_buffer odeint bh acc det r W)"
  proof (intro allI impI)
    fix r assume r: "r < W"
    show "bufs ! r = table ?X ?Y (rank_buffer odeint bh acc det r W)"
      using worker_image_buffer[OF W nb len r okr[OF r]] bufs(2) r by simp
  qed
  from gather_rank_buffers[OF W nb len bufs(1) this]
  have "full = table ?X ?Y (rank_buffer odeint bh acc det 0 1)" using bufs(3) by simp
  then show "worker_image odeint bh acc det 0 1 = Inr full"
    using worker_image_buffer[OF one nb len one ok1] by simp
next
  fix r d i j
  assume r: "r < W" and d: "worker_image odeint bh acc det r W = Inr d"
    and i: "i < x_pixels det" and j: "j < y_pixels det"
    and out: "\<not> (start_idx r W det \<le> i * y_pixels det + j \<and>
                  i * y_pixels det + j < end_idx r W det)"
  have nb: "0 < length (betaRange det)" using d worker_image_needs_columns by blast
  have ok: "\<forall>q \<in> set (rank_pixels det r W). \<exists>v. pixel_flux odeint bh acc det q = Inr v"
    using worker_image_pixels[OF W nb d] .
  have "d = table (x_pixels det) (y_pixels det) (rank_buffer odeint bh acc det r W)"
    using worker_image_buffer[OF W nb len r ok] d by simp
  then have "d ! i ! j = rank_buffer odeint bh acc det r W (i, j)"
    using i j by (simp add: table_nth)
  also have "\<dots> = 0"
  proof -
    have "(i, j) \<notin> set (rank_pixels det r W)"
      using out rank_pixels_set[OF nb, of i j r W] len by auto
    then show ?thesis by (simp add: rank_buffer_def)
  qed
  finally show "d ! i ! j = 0" .
qed

lemma ex_len: "length (betaRange ex_grid) = 2"
  by (simp add: ex_grid_def)

lemma ex_tot: "x_pixels ex_grid * y_pixels ex_grid = 4"
  by (simp add: ex_grid_def)

lemma ex_dist:
  "distribute 0 1 ex_grid = Inr (0, 0, 2, 0)"
  "distribute 0 3 ex_grid = Inr (0, 0, 1, 0)"
  "distribute 1 3 ex_grid = Inr (1, 0, 1, 1)"
  "distribute 2 3 ex_grid = Inr (1, 1, 2, 0)"
  by (simp_all add: distribute_def index_range_def Let_def ex_len ex_tot)

lemma ex_upt:
  "[0..<(3::nat)] = [0, 1, 2]" "[0..<(2::nat)] = [0, 1]" "[1..<(2::nat)] = [1]"
  "[1..<(3::nat)] = [1, 2]" "[0..<(1::nat)] = [0]" "[0..<(0::nat)] = []" "[1..<(1::nat)] = []"
  "[Suc 0..<3] = [1, 2]" "[Suc 0..<2] = [1]" "[0..<Suc 0] = [0]"
  by (simp_all add: upt_rec[of _ "numeral _"] upt_rec[of _ 1])

lemma ex_idx:
  "pixel_indices (Image 0 0 2 0) ex_grid = [(0, 0), (0, 1), (1, 0), (1, 1)]"
  "pixel_indices (Image 0 0 1 0) ex_grid = [(0, 0), (0, 1)]"
  "pixel_indices (Image 1 0 1 1) ex_grid = [(1, 0)]"
  "pixel_indices (Image 1 1 2 0) ex_grid = [(1, 1)]"
  by (simp_all add: pixel_indices_def Image_def Let_def ex_len ex_upt)

lemma ex_zeros: "zeros (x_pixels ex_grid) (y_pixels ex_grid) = [[0, 0], [0, 0]]"
  by (simp add: zeros_def ex_grid_def numeral_2_eq_2)

lemmas ex_run = worker_image_def ex_dist[unfolded One_nat_def] bind_err_def create_photons_def
  ex_idx[unfolded One_nat_def] new_photon_def
  getitem_def Photon_def initial_conditions_def initCond_def create_image_def ex_zeros
  setitem2_def geo_integ_def Let_def eh_condition_def edge_condition_def argmax_def
  energy_flux_def ex_solver_def ex_blackhole_def ex_disk_def

lemma ex_sel:
  "alphaRange ex_grid = [0, 1]" "betaRange ex_grid = [0, 1]"
  "photon_coords ex_grid = (\<lambda>a b. ((0, 4 + a + 2 * b, pi / 2, 0), (1, 1, 0, 0)))"
  by (simp_all add: ex_grid_def)

lemma ex_workers:
  "worker_image ex_solver ex_blackhole ex_disk ex_grid 0 1 = Inr [[6 / 7, 4 / 7], [5 / 7, 3 / 7]]"
  "worker_image ex_solver ex_blackhole ex_disk ex_grid 0 3 = Inr [[6 / 7, 4 / 7], [0, 0]]"
  "worker_image ex_solver ex_blackhole ex_disk ex_grid 1 3 = Inr [[0, 0], [5 / 7, 0]]"
  "worker_image ex_solver ex_blackhole ex_disk ex_grid 2 3 = Inr [[0, 0], [0, 3 / 7]]"
  by (simp_all add: ex_run ex_sel)

theorem worker_count_invariance_witness:
  "0 < (3::nat) \<and> length (betaRange ex_grid) = y_pixels ex_grid \<and>
   worker_image ex_solver ex_blackhole ex_disk ex_grid 0 3 = Inr [[6 / 7, 4 / 7], [0, 0]] \<and>
   worker_image ex_solver ex_blackhole ex_disk ex_grid 1 3 = Inr [[0, 0], [5 / 7, 0]] \<and>
   worker_image ex_solver ex_blackhole ex_disk ex_grid 2 3 = Inr [[0, 0], [0, 3 / 7]] \<and>
   gather_and_process_data [[[6 / 7, 4 / 7], [0, 0]], [[0, 0], [5 / 7, 0]], [[0, 0], [0, 3 / 7]]]
     ex_grid 0 = Some [[6 / 7, 4 / 7], [5 / 7, 3 / 7]] \<and>
   worker_image ex_solver ex_blackhole ex_disk ex_grid 0 1 = Inr [[6 / 7, 4 / 7], [5 / 7, 3 / 7]] \<and>
   \<not> (start_idx 1 3 ex_grid \<le> 0 * y_pixels ex_grid + 1 \<and>
      0 * y_pixels ex_grid + 1 < end_idx 1 3 ex_grid) \<and>
   [[0, 0], [5 / 7, 0 :: real]] ! 0 ! 1 = 0"
proof -
  let ?bufs = "[[[6 / 7, 4 / 7], [0, 0]], [[0, 0], [5 / 7, 0]], [[0, 0], [0, 3 / 7 :: real]]]"
  have w: "0 < (3::nat)" by simp
  have len: "length (betaRange ex_grid) = y_pixels ex_grid" by (simp add: ex_grid_def)
  note t = worker_count_invariance[OF w len, of ex_solver ex_blackhole ex_disk
      "[[6 / 7, 4 / 7], [5 / 7, 3 / 7]]"]
  have g: "gather_and_process_data ?bufs ex_grid 0 = Some [[6 / 7, 4 / 7], [5 / 7, 3 / 7]]"
    by (simp add: gather_and_process_data_def sum_axis0_def add_image_def)
  have each: "\<forall>r < 3. worker_image ex_solver ex_blackhole ex_disk ex_grid r 3 = Inr (?bufs ! r)"
  proof (intro allI impI)
    fix r :: nat
    assume "r < 3"
    then consider "r = 0" | "r = 1" | "r = 2" by linarith
    then show "worker_image ex_solver ex_blackhole ex_disk ex_grid r 3 = Inr (?bufs ! r)"
      by cases (simp_all add: ex_workers ex_workers[unfolded One_nat_def])
  qed
  have "\<exists>bufs. length bufs = 3 \<and>
      (\<forall>r < 3. worker_image ex_solver ex_blackhole ex_disk ex_grid r 3 = Inr (bufs ! r)) \<and>
      gather_and_process_data bufs ex_grid 0 = Some [[6 / 7, 4 / 7], [5 / 7, 3 / 7]]"
    using each g by (intro exI[of _ ?bufs]) simp
  then have single: "worker_image ex_solver ex_blackhole ex_disk ex_grid 0 1 =
      Inr [[6 / 7, 4 / 7], [5 / 7, 3 / 7]]"
    by (rule t[THEN conjunct1, THEN iffD2])
  have out: "\<not> (start_idx 1 3 ex_grid \<le> 0 * y_pixels ex_grid + 1 \<and>
      0 * y_pixels ex_grid + 1 < end_idx 1 3 ex_grid)"
    by (simp add: start_idx_def index_range_def Let_def ex_tot)
  have z: "[[0, 0], [5 / 7, 0 :: real]] ! 0 ! 1 = 0"
    by (rule t[THEN conjunct2, rule_format, OF _ ex_workers(3) _ _ out])
      (simp_all add: ex_grid_def)
  show ?thesis
    using w len ex_workers(2,3,4) g single out z by (intro conjI)
qed

section \<open>Properties of the flux in binary64 arithmetic\<close>

lemma rhe_cases:
  "round_half_even x = \<lfloor>x\<rfloor> \<or> round_half_even x = \<lfloor>x\<rfloor> + 1"
  by (simp add: round_half_even_def Let_def)

lemma rhe_error: "\<bar>of_int (round_half_even x) - x\<bar> \<le> 1 / 2"
proof -
  have "of_int \<lfloor>x\<rfloor> \<le> x" "x < of_int \<lfloor>x\<rfloor> + 1" by linarith+
  then show ?thesis by (auto simp: round_half_even_def Let_def abs_le_iff)
qed

lemma rhe_of_int: "round_half_even (of_int n) = n"
  by (simp add: round_half_even_def)

lemma rhe_mono:
  assumes "x \<le> y"
  shows "round_half_even x \<le> round_half_even y"
proof (cases "\<lfloor>x\<rfloor> = \<lfloor>y\<rfloor>")
  case True
  then show ?thesis using assms by (auto simp: round_half_even_def Let_def)
next
  case False
  then have "\<lfloor>x\<rfloor> + 1 \<le> \<lfloor>y\<rfloor>" using floor_mono[OF assms] by linarith
  moreover have "round_half_even x \<le> \<lfloor>x\<rfloor> + 1" using rhe_cases[of x] by linarith
  moreover have "\<lfloor>y\<rfloor> \<le> round_half_even y" using rhe_cases[of y] by linarith
  ultimately show ?thesis by linarith
qed

lemma rhe_minus: "round_half_even (- x) = - round_half_even x"
proof (cases "x = of_int \<lfloor>x\<rfloor>")
  case True
  then obtain n where "x = of_int n" by blast
  then have "- x = of_int (- n)" by simp
  then show ?thesis using \<open>x = of_int n\<close> rhe_of_int by metis
next
  case False
  then have lt: "of_int \<lfloor>x\<rfloor> < x" by linarith
  have up: "x < of_int \<lfloor>x\<rfloor> + 1" by linarith
  have fl: "\<lfloor>- x\<rfloor> = - \<lfloor>x\<rfloor> - 1"
  proof (rule floor_unique)
    have c: "(of_int (- \<lfloor>x\<rfloor> - 1) :: real) = - of_int \<lfloor>x\<rfloor> - 1" by simp
    show "of_int (- \<lfloor>x\<rfloor> - 1) \<le> - x" unfolding c using up by linarith
    show "- x < of_int (- \<lfloor>x\<rfloor> - 1) + 1" unfolding c using lt by linarith
  qed
  show ?thesis
    unfolding round_half_even_def Let_def fl using lt by auto
qed

lemma binade:
  assumes "x \<noteq> 0"
  shows "2 powr of_int \<lfloor>log 2 \<bar>x\<bar>\<rfloor> \<le> \<bar>x\<bar> \<and> \<bar>x\<bar> < 2 powr (of_int \<lfloor>log 2 \<bar>x\<bar>\<rfloor> + 1)"
proof -
  have "0 < \<bar>x\<bar>" using assms by simp
  then show ?thesis
    using floor_log_eq_powr_iff[of "\<bar>x\<bar>" 2 "\<lfloor>log 2 \<bar>x\<bar>\<rfloor>"] by simp
qed

lemma quantum_form: "2 powr (e - 52) = 2 powr (e::real) / 2 ^ 52"
proof -
  have "2 powr (e - 52) = 2 powr e / (2::real) powr 52" by (rule powr_diff)
  also have "(2::real) powr 52 = 2 ^ 52" by simp
  finally show ?thesis .
qed

lemma next_binade: "2 powr (e + 1) = 2 * 2 powr (e::real)"
  by (simp add: powr_add)

lemma expo_minus: "expo (- x) = expo x"
  by (simp add: expo_def)

lemma expo_ge: "- 1022 \<le> expo x"
  by (simp add: expo_def)

lemma expo_normal:
  assumes "2 powr (- 1022) \<le> x"
  shows "expo x = \<lfloor>log 2 x\<rfloor>"
proof -
  have x: "0 < x" using assms powr_gt_zero[of 2 "- 1022"] by linarith
  have "- 1022 \<le> log 2 x" using assms x by (simp add: le_log_iff)
  then have "- 1022 \<le> \<lfloor>log 2 x\<rfloor>" by (simp add: le_floor_iff)
  then show ?thesis using x by (simp add: expo_def)
qed

lemma expo_upper:
  assumes "0 < x"
  shows "x < 2 powr (of_int (expo x) + 1)"
proof -
  have "x < 2 powr (of_int \<lfloor>log 2 x\<rfloor> + 1)" using binade[of x] assms by simp
  moreover have "(2::real) powr (of_int \<lfloor>log 2 x\<rfloor> + 1) \<le> 2 powr (of_int (expo x) + 1)"
    using assms by (intro powr_mono) (simp_all add: expo_def)
  ultimately show ?thesis by linarith
qed

lemma expo_lower:
  assumes "2 powr (- 1022) \<le> x"
  shows "2 powr of_int (expo x) \<le> x"
proof -
  have x: "0 < x" using assms powr_gt_zero[of 2 "- 1022"] by linarith
  show ?thesis unfolding expo_normal[OF assms] using binade[of x] x by simp
qed

lemma expo_mono:
  assumes "0 < x" "x \<le> y"
  shows "expo x \<le> expo y"
proof -
  have "\<lfloor>log 2 x\<rfloor> \<le> \<lfloor>log 2 y\<rfloor>" using assms by (intro floor_mono) simp
  then show ?thesis using assms by (simp add: expo_def)
qed

lemma round64_zero: "round64 0 = 0"
  by (simp add: round64_def)

lemma round64_minus: "round64 (- x) = - round64 x"
  by (simp add: round64_def Let_def rhe_minus expo_minus)

lemma round64_form:
  assumes "x \<noteq> 0"
  shows "round64 x =
     of_int (round_half_even (x / 2 powr (of_int (expo x) - 52))) * 2 powr (of_int (expo x) - 52)"
  using assms by (simp add: round64_def Let_def)

lemma round64_nonneg:
  assumes "0 \<le> x"
  shows "0 \<le> round64 x"
proof (cases "x = 0")
  case True
  then show ?thesis by (simp add: round64_zero)
next
  case False
  let ?q = "2 powr (of_int (expo x) - 52) :: real"
  have "0 \<le> x / ?q" using assms by simp
  then have "round_half_even (of_int 0) \<le> round_half_even (x / ?q)"
    by (intro rhe_mono) simp
  then have "0 \<le> round_half_even (x / ?q)" unfolding rhe_of_int .
  then show ?thesis unfolding round64_form[OF False] by simp
qed

lemma round64_hi:
  assumes "0 < x"
  shows "round64 x \<le> 2 powr (of_int (expo x) + 1)"
proof -
  let ?e = "of_int (expo x) :: real"
  let ?q = "2 powr (?e - 52) :: real"
  have q: "0 < ?q" by simp
  have "x / ?q < 2 powr (?e + 1) / ?q"
    using expo_upper[OF assms] q by (intro divide_strict_right_mono) simp_all
  also have "2 powr (?e + 1) / ?q = 2 ^ 53" by (simp add: quantum_form next_binade)
  finally have "x / ?q \<le> of_int (2 ^ 53)" by simp
  then have "round_half_even (x / ?q) \<le> round_half_even (of_int (2 ^ 53))" by (rule rhe_mono)
  then have hi: "of_int (round_half_even (x / ?q)) \<le> (2 ^ 53 :: real)"
    unfolding rhe_of_int by (metis of_int_le_iff of_int_numeral of_int_power)
  have e2: "2 ^ 53 * ?q = 2 powr (?e + 1)" by (simp add: quantum_form next_binade)
  have nz: "x \<noteq> 0" using assms by simp
  show ?thesis
    unfolding round64_form[OF nz] e2[symmetric] using hi q by (intro mult_right_mono) simp_all
qed

lemma round64_lo:
  assumes "2 powr (- 1022) \<le> x"
  shows "2 powr of_int (expo x) \<le> round64 x"
proof -
  let ?e = "of_int (expo x) :: real"
  let ?q = "2 powr (?e - 52) :: real"
  have q: "0 < ?q" by simp
  have x: "0 < x" using assms powr_gt_zero[of 2 "- 1022"] by linarith
  have "2 powr ?e / ?q \<le> x / ?q"
    using expo_lower[OF assms] q by (intro divide_right_mono) simp_all
  moreover have "2 powr ?e / ?q = 2 ^ 52" by (simp add: quantum_form)
  ultimately have "of_int (2 ^ 52) \<le> x / ?q" by simp
  then have "round_half_even (of_int (2 ^ 52)) \<le> round_half_even (x / ?q)" by (rule rhe_mono)
  then have lo: "(2 ^ 52 :: real) \<le> of_int (round_half_even (x / ?q))"
    unfolding rhe_of_int by (metis of_int_le_iff of_int_numeral of_int_power)
  have e1: "2 ^ 52 * ?q = 2 powr ?e" by (simp add: quantum_form)
  have nz: "x \<noteq> 0" using x by simp
  show ?thesis
    unfolding round64_form[OF nz] e1[symmetric] using lo q by (intro mult_right_mono) simp_all
qed

lemma round64_normal:
  assumes "2 powr (- 1022) \<le> x"
  shows "2 powr (- 1022) \<le> round64 x"
proof -
  have "(2::real) powr (- 1022) \<le> 2 powr of_int (expo x)"
    using expo_ge[of x] by (intro powr_mono) simp_all
  then show ?thesis using round64_lo[OF assms] by linarith
qed

lemma round64_upper:
  assumes "2 powr (- 1022) \<le> x"
  shows "round64 x \<le> x * (1 + 1 / 2 ^ 53)"
proof -
  let ?e = "of_int (expo x) :: real"
  let ?q = "2 powr (?e - 52) :: real"
  let ?s = "x / ?q"
  have q: "0 < ?q" by simp
  have x: "0 < x" using assms powr_gt_zero[of 2 "- 1022"] by linarith
  have nz: "x \<noteq> 0" using x by simp
  have r: "round64 x = of_int (round_half_even ?s) * ?q" by (rule round64_form[OF nz])
  have "of_int (round_half_even ?s) \<le> ?s + 1 / 2" using rhe_error[of ?s] by linarith
  then have "of_int (round_half_even ?s) * ?q \<le> (?s + 1 / 2) * ?q"
    using q by (intro mult_right_mono) simp_all
  also have "\<dots> = x + ?q / 2" using q by (simp add: field_simps)
  finally have a: "round64 x \<le> x + ?q / 2" unfolding r .
  have "?q / 2 = 2 powr ?e * (1 / 2 ^ 53)"
    by (simp add: quantum_form)
  also have "\<dots> \<le> x * (1 / 2 ^ 53)"
    using expo_lower[OF assms] by (intro mult_right_mono) simp_all
  finally have b: "?q / 2 \<le> x * (1 / 2 ^ 53)" .
  show ?thesis using a b by (simp add: algebra_simps)
qed

lemma round64_mono_pos:
  assumes "0 < x" "x \<le> y"
  shows "round64 x \<le> round64 y"
proof -
  have y: "0 < y" using assms by linarith
  have nzx: "x \<noteq> 0" and nzy: "y \<noteq> 0" using assms y by simp_all
  have le: "expo x \<le> expo y" using assms by (rule expo_mono)
  show ?thesis
  proof (cases "expo x = expo y")
    case True
    let ?q = "2 powr (of_int (expo y) - 52) :: real"
    have q: "0 < ?q" by simp
    have "x / ?q \<le> y / ?q" using assms(2) q by (intro divide_right_mono) simp_all
    then have "round_half_even (x / ?q) \<le> round_half_even (y / ?q)" by (rule rhe_mono)
    then have "of_int (round_half_even (x / ?q)) * ?q \<le> of_int (round_half_even (y / ?q)) * ?q"
      using q by (intro mult_right_mono) simp_all
    then show ?thesis
      unfolding round64_form[OF nzx] round64_form[OF nzy] True .
  next
    case False
    then have lt: "expo x + 1 \<le> expo y" using le by linarith
    then have "- 1022 < expo y" using expo_ge[of x] by linarith
    then have fl: "expo y = \<lfloor>log 2 y\<rfloor>" using y by (simp add: expo_def max_def split: if_splits)
    have "(2::real) powr (- 1022) \<le> 2 powr of_int (expo y)"
      using expo_ge[of y] by (intro powr_mono) simp_all
    moreover have "2 powr of_int (expo y) \<le> y" unfolding fl using binade[of y] y by simp
    ultimately have ny: "2 powr (- 1022) \<le> y" by linarith
    have "(of_int (expo x) + 1 :: real) \<le> of_int (expo y)" using lt by linarith
    then have "(2::real) powr (of_int (expo x) + 1) \<le> 2 powr of_int (expo y)"
      by (intro powr_mono) simp_all
    then show ?thesis
      using round64_hi[OF assms(1)] round64_lo[OF ny] by linarith
  qed
qed

lemma round64_mono:
  assumes "x \<le> y"
  shows "round64 x \<le> round64 y"
proof -
  consider "0 < x" | "x \<le> 0" "0 \<le> y" | "y < 0" using assms by linarith
  then show ?thesis
  proof cases
    case 1
    then show ?thesis using assms by (rule round64_mono_pos)
  next
    case 2
    have "0 \<le> round64 (- x)" using 2(1) by (intro round64_nonneg) simp
    then have "round64 x \<le> 0" by (simp add: round64_minus)
    then show ?thesis using round64_nonneg[OF 2(2)] by linarith
  next
    case 3
    have "round64 (- y) \<le> round64 (- x)" using 3 assms by (intro round64_mono_pos) simp_all
    then show ?thesis by (simp add: round64_minus)
  qed
qed

lemma round64_at:
  assumes "0 < x" "- 1022 \<le> e" "2 powr of_int e \<le> x" "x < 2 * 2 powr of_int e"
    and "of_int f \<le> x * 2 ^ 52 / 2 powr of_int e" "x * 2 ^ 52 / 2 powr of_int e < of_int f + 1"
  shows "round64 x =
     of_int (let d = x * 2 ^ 52 / 2 powr of_int e - of_int f
             in if d < 1 / 2 then f else if 1 / 2 < d then f + 1 else if even f then f else f + 1)
       * (2 powr of_int e / 2 ^ 52)"
proof -
  have "\<lfloor>log 2 x\<rfloor> = e"
    using floor_log_eq_powr_iff[of x 2 e] assms(1,3,4) by (simp add: next_binade)
  then have e: "expo x = e" using assms(1,2) by (simp add: expo_def)
  have nz: "x \<noteq> 0" using assms(1) by simp
  have s: "x / (2 powr of_int e / 2 ^ 52) = x * 2 ^ 52 / 2 powr of_int e" by simp
  have fl: "\<lfloor>x * 2 ^ 52 / 2 powr of_int e\<rfloor> = f" using assms(5,6) by (rule floor_unique)
  show ?thesis
    unfolding round64_form[OF nz] e quantum_form s round_half_even_def fl
    by (simp add: Let_def)
qed

lemma p2: "(2::real) powr 2 = 4" "(2::real) powr 0 = 1" "(2::real) powr (- 1) = 1 / 2"
  "(2::real) powr (- 3) = 1 / 8"
  by (simp_all add: powr_minus_divide)

lemma round64_one: "round64 1 = 1"
  using round64_at[of 1 0 "2 ^ 52"] by (simp add: p2)

lemma round64_7: "round64 7 = 7"
  using round64_at[of 7 2 "7 * 2 ^ 50"] by (simp add: p2)

lemma round64_5: "round64 5 = 5"
  using round64_at[of 5 2 "5 * 2 ^ 50"] by (simp add: p2)

lemma round64_7m: "round64 (7 - 1 / 2 ^ 51) = 7"
  using round64_at[of "7 - 1 / 2 ^ 51" 2 "7 * 2 ^ 50 - 1"] by (simp add: p2)

lemma round64_seventh: "round64 (1 / 7) = 5146971002709138 / 2 ^ 55"
  using round64_at[of "1 / 7" "- 3" 5146971002709138] by (simp add: p2)

lemma round64_below_one: "round64 (1 - 1 / 2 ^ 54) = 1"
  using round64_at[of "1 - 1 / 2 ^ 54" "- 1" "2 ^ 53 - 1"] by (simp add: p2)

lemma round64_above_one: "round64 (1 + 1 / 2 ^ 53) = 1"
  using round64_at[of "1 + 1 / 2 ^ 53" 0 "2 ^ 52"] by (simp add: p2)

lemma round64_five_sevenths:
  "round64 (5 * (5146971002709138 / 2 ^ 55)) = 6433713753386422 / 2 ^ 53"
  using round64_at[of "5 * (5146971002709138 / 2 ^ 55)" "- 1" 6433713753386422] by (simp add: p2)

lemma round64_top: "round64 (2 powr 1022) = 2 powr 1022"
  using round64_at[of "2 powr 1022" 1022 "2 ^ 52"] by simp

lemma rounded_profile_bounds:
  assumes lo: "2 powr (- 1022) \<le> b - a" and hi: "b - a \<le> 2 powr 1022"
    and r: "a < r" "r < b"
  shows "round64 (a - b) \<noteq> 0"
    and "0 \<le> round64 (round64 (1 / round64 (a - b)) * round64 (r - b))"
    and "round64 (round64 (1 / round64 (a - b)) * round64 (r - b)) \<le> 1"
proof -
  let ?A = "round64 (b - a)" and ?B = "round64 (b - r)"
  let ?M = "round64 (1 / ?A)"
  have An: "2 powr (- 1022) \<le> ?A" using lo by (rule round64_normal)
  then have A: "0 < ?A" using powr_gt_zero[of 2 "- 1022"] by linarith
  have "?A \<le> round64 (2 powr 1022)" using hi by (rule round64_mono)
  then have At: "?A \<le> 2 powr 1022" unfolding round64_top .
  have "1 / (2 powr 1022) \<le> 1 / ?A" using At A by (intro divide_left_mono) simp_all
  then have iA: "2 powr (- 1022) \<le> 1 / ?A" by (simp add: powr_minus_divide)
  have B: "0 \<le> ?B" using r by (intro round64_nonneg) simp
  have BA: "?B \<le> ?A" using r by (intro round64_mono) simp
  have Mn: "2 powr (- 1022) \<le> ?M" using iA by (rule round64_normal)
  then have M: "0 < ?M" using powr_gt_zero[of 2 "- 1022"] by linarith
  have d: "round64 (a - b) = - ?A" using round64_minus[of "b - a"] by simp
  have x: "round64 (r - b) = - ?B" using round64_minus[of "b - r"] by simp
  have m: "round64 (1 / round64 (a - b)) = - ?M"
    unfolding d using round64_minus[of "1 / ?A"] by simp
  have prod: "round64 (1 / round64 (a - b)) * round64 (r - b) = ?M * ?B"
    unfolding m x by simp
  show "round64 (a - b) \<noteq> 0" unfolding d using A by simp
  have "0 \<le> ?M * ?B" using M B by simp
  then show "0 \<le> round64 (round64 (1 / round64 (a - b)) * round64 (r - b))"
    unfolding prod by (rule round64_nonneg)
  have "?M \<le> 1 / ?A * (1 + 1 / 2 ^ 53)" using iA by (rule round64_upper)
  then have "?M * ?A \<le> 1 / ?A * (1 + 1 / 2 ^ 53) * ?A"
    using A by (intro mult_right_mono) simp_all
  also have "\<dots> = 1 + 1 / 2 ^ 53" using A by simp
  finally have MA: "?M * ?A \<le> 1 + 1 / 2 ^ 53" .
  have "?M * ?B \<le> ?M * ?A" using BA M by (intro mult_left_mono) simp_all
  then have "?M * ?B \<le> 1 + 1 / 2 ^ 53" using MA by linarith
  then have "round64 (?M * ?B) \<le> round64 (1 + 1 / 2 ^ 53)" by (rule round64_mono)
  then show "round64 (round64 (1 / round64 (a - b)) * round64 (r - b)) \<le> 1"
    unfolding prod round64_above_one .
qed

lemma normal_distance_nonzero:
  assumes lo: "2 powr (- 1022) \<le> b - a"
  shows "round64 (a - b) \<noteq> 0"
proof -
  have "2 powr (- 1022) \<le> round64 (b - a)" using lo by (rule round64_normal)
  then have "0 < round64 (b - a)" using powr_gt_zero[of 2 "- 1022"] by linarith
  then show ?thesis using round64_minus[of "b - a"] by simp
qed

lemma ex_slope: "round64 (round64 (1 - 0) / round64 (3 - 10)) = - (5146971002709138 / 2 ^ 55)"
proof -
  have "round64 (3 - 10) = - 7" using round64_minus[of 7] by (simp add: round64_7)
  moreover have "round64 (1 - 0) = 1" by (simp add: round64_one)
  moreover have "round64 (1 / - 7) = - (5146971002709138 / 2 ^ 55)"
    using round64_minus[of "1 / 7"] by (simp add: round64_seventh)
  ultimately show ?thesis by simp
qed

lemma ex_near_edge: "round64 (3 + 1 / 2 ^ 51 - 10) = - 7"
proof -
  have "(3 + 1 / 2 ^ 51 - 10 :: real) = - (7 - 1 / 2 ^ 51)" by simp
  then show ?thesis using round64_minus[of "7 - 1 / 2 ^ 51"] by (simp only: round64_7m)
qed

lemma ex_at_five: "round64 (5 - 10) = - 5"
  using round64_minus[of 5] by (simp add: round64_5)

lemma ex_flux_near_edge:
  "energy_flux_double \<lparr>in_edge = 3, out_edge = 10\<rparr> (3 + 1 / 2 ^ 51) = Inr 1"
proof -
  have nz: "round64 (3 - 10) \<noteq> 0" using round64_minus[of 7] by (simp add: round64_7)
  have p1: "- (5146971002709138 / 2 ^ 55) * - 7 = (1 - 1 / 2 ^ 54 :: real)" by simp
  show ?thesis
    unfolding energy_flux_double_def Let_def disk.simps ex_slope ex_near_edge p1 round64_below_one
    using nz by simp
qed

lemma ex_flux_at_five:
  "energy_flux_double \<lparr>in_edge = 3, out_edge = 10\<rparr> 5 = Inr (6433713753386422 / 2 ^ 53)"
proof -
  have nz: "round64 (3 - 10) \<noteq> 0" using round64_minus[of 7] by (simp add: round64_7)
  have p5: "- (5146971002709138 / 2 ^ 55) * - 5 = (5 * (5146971002709138 / 2 ^ 55) :: real)" by simp
  show ?thesis
    unfolding energy_flux_double_def Let_def disk.simps ex_slope ex_at_five p5 round64_five_sevenths
    using nz by simp
qed

text \<open>
  C10, as stated, fails in the arithmetic of the code: with edges 3 and 10 and
  \<open>r = 3 + 2^-51\<close>, the binary64 number that follows 3, \<open>r\<close> is strictly between the edges
  and \<open>energy_flux\<close> returns exactly 1; at \<open>r = 5\<close> it returns \<open>6433713753386422 / 2^53\<close>,
  which is not \<open>(5 - 10) / (3 - 10)\<close>.
\<close>

theorem energy_flux_strict_bound_counterexample:
  "in_edge \<lparr>in_edge = 3, out_edge = 10\<rparr> < 3 + 1 / 2 ^ 51 \<and>
   3 + 1 / 2 ^ 51 < out_edge \<lparr>in_edge = 3, out_edge = 10\<rparr> \<and>
   energy_flux_double \<lparr>in_edge = 3, out_edge = 10\<rparr> (3 + 1 / 2 ^ 51) = Inr 1 \<and>
   \<not> (1::real) < 1 \<and>
   energy_flux_double \<lparr>in_edge = 3, out_edge = 10\<rparr> 5 = Inr (6433713753386422 / 2 ^ 53) \<and>
   (6433713753386422 / 2 ^ 53 :: real) \<noteq> (5 - 10) / (3 - 10)"
  using ex_flux_near_edge ex_flux_at_five by simp

text \<open>
  C10, amended. For edges with \<open>2^-1022 \<le> out_edge - in_edge \<le> 2^1022\<close> (so that
  \<open>in_edge < out_edge\<close> and neither the difference nor its reciprocal leaves the normal range
  of binary64) and every \<open>r\<close>, \<open>energy_flux\<close> returns a value in the closed interval
  \<open>[0, 1]\<close>: 0 when \<open>r\<close> is outside the open interval, and for \<open>in_edge < r < out_edge\<close> the
  rounded product \<open>round64 (round64 (1 / round64 (in_edge - out_edge)) * round64 (r - out_edge))\<close>,
  whose exact counterpart \<open>(r - out_edge) / (in_edge - out_edge)\<close> is strictly between 0 and 1.
\<close>

theorem energy_flux_double_range:
  assumes "2 powr (- 1022) \<le> out_edge s - in_edge s"
    and "out_edge s - in_edge s \<le> 2 powr 1022"
  shows "\<exists>v. energy_flux_double s r = Inr v \<and> 0 \<le> v \<and> v \<le> 1 \<and>
           (in_edge s < r \<and> r < out_edge s \<longrightarrow>
              v = round64 (round64 (1 / round64 (in_edge s - out_edge s)) * round64 (r - out_edge s)) \<and>
              energy_flux s r = Inr ((r - out_edge s) / (in_edge s - out_edge s)) \<and>
              0 < (r - out_edge s) / (in_edge s - out_edge s) \<and>
              (r - out_edge s) / (in_edge s - out_edge s) < 1) \<and>
           (\<not> (in_edge s < r \<and> r < out_edge s) \<longrightarrow> v = 0)"
proof (cases "in_edge s < r \<and> r < out_edge s")
  case True
  let ?v = "round64 (round64 (1 / round64 (in_edge s - out_edge s)) * round64 (r - out_edge s))"
  note b = rounded_profile_bounds[OF assms conjunct1[OF True] conjunct2[OF True]]
  have "energy_flux_double s r = Inr ?v"
    using True b(1) by (simp add: energy_flux_double_def Let_def round64_one)
  moreover have "energy_flux s r = Inr ((r - out_edge s) / (in_edge s - out_edge s))"
    using True by (simp add: energy_flux_inside)
  ultimately show ?thesis
    using True b(2,3) profile_bounds[of "in_edge s" r "out_edge s"] by simp
next
  case False
  have "energy_flux_double s r = Inr 0"
    using False normal_distance_nonzero[OF assms(1)] by (auto simp: energy_flux_double_def Let_def)
  then show ?thesis
  proof (intro exI[of _ 0] conjI)
    show "in_edge s < r \<and> r < out_edge s \<longrightarrow>
        0 = round64 (round64 (1 / round64 (in_edge s - out_edge s)) * round64 (r - out_edge s)) \<and>
        energy_flux s r = Inr ((r - out_edge s) / (in_edge s - out_edge s)) \<and>
        0 < (r - out_edge s) / (in_edge s - out_edge s) \<and>
        (r - out_edge s) / (in_edge s - out_edge s) < 1"
    proof
      assume "in_edge s < r \<and> r < out_edge s"
      with False show "0 = round64 (round64 (1 / round64 (in_edge s - out_edge s)) * round64 (r - out_edge s)) \<and>
        energy_flux s r = Inr ((r - out_edge s) / (in_edge s - out_edge s)) \<and>
        0 < (r - out_edge s) / (in_edge s - out_edge s) \<and>
        (r - out_edge s) / (in_edge s - out_edge s) < 1"
        by contradiction
    qed
  qed simp_all
qed

theorem energy_flux_double_range_witness:
  "2 powr (- 1022) \<le> out_edge ex_disk - in_edge ex_disk \<and>
   out_edge ex_disk - in_edge ex_disk \<le> 2 powr 1022 \<and>
   in_edge ex_disk < 3 + 1 / 2 ^ 51 \<and> 3 + 1 / 2 ^ 51 < out_edge ex_disk \<and>
   (\<exists>v. energy_flux_double ex_disk (3 + 1 / 2 ^ 51) = Inr v \<and> 0 \<le> v \<and> v \<le> 1 \<and> v = 1) \<and>
   energy_flux ex_disk (3 + 1 / 2 ^ 51) = Inr ((3 + 1 / 2 ^ 51 - 10) / (3 - 10)) \<and>
   (3 + 1 / 2 ^ 51 - 10) / (3 - 10) < (1::real) \<and>
   \<not> (in_edge ex_disk < 12 \<and> 12 < out_edge ex_disk) \<and>
   energy_flux_double ex_disk 12 = Inr 0"
proof -
  have "(2::real) powr (- 1022) \<le> 2 powr 0" by (intro powr_mono) simp_all
  then have lo: "2 powr (- 1022) \<le> out_edge ex_disk - in_edge ex_disk"
    by (simp add: ex_disk_def)
  have "(2::real) powr 3 \<le> 2 powr 1022" by (intro powr_mono) simp_all
  then have hi: "out_edge ex_disk - in_edge ex_disk \<le> 2 powr 1022"
    by (simp add: ex_disk_def)
  have ins: "in_edge ex_disk < 3 + 1 / 2 ^ 51 \<and> 3 + 1 / 2 ^ 51 < out_edge ex_disk"
    by (simp add: ex_disk_def)
  have outs: "\<not> (in_edge ex_disk < 12 \<and> 12 < out_edge ex_disk)" by (simp add: ex_disk_def)
  have one: "energy_flux_double ex_disk (3 + 1 / 2 ^ 51) = Inr 1"
    using ex_flux_near_edge by (simp add: ex_disk_def)
  from energy_flux_double_range[OF lo hi, of "3 + 1 / 2 ^ 51"] obtain v where
    v: "energy_flux_double ex_disk (3 + 1 / 2 ^ 51) = Inr v \<and> 0 \<le> v \<and> v \<le> 1 \<and>
         (in_edge ex_disk < 3 + 1 / 2 ^ 51 \<and> 3 + 1 / 2 ^ 51 < out_edge ex_disk \<longrightarrow>
            v = round64 (round64 (1 / round64 (in_edge ex_disk - out_edge ex_disk)) *
                  round64 (3 + 1 / 2 ^ 51 - out_edge ex_disk)) \<and>
            energy_flux ex_disk (3 + 1 / 2 ^ 51) =
              Inr ((3 + 1 / 2 ^ 51 - out_edge ex_disk) / (in_edge ex_disk - out_edge ex_disk)) \<and>
            0 < (3 + 1 / 2 ^ 51 - out_edge ex_disk) / (in_edge ex_disk - out_edge ex_disk) \<and>
            (3 + 1 / 2 ^ 51 - out_edge ex_disk) / (in_edge ex_disk - out_edge ex_disk) < 1) \<and>
         (\<not> (in_edge ex_disk < 3 + 1 / 2 ^ 51 \<and> 3 + 1 / 2 ^ 51 < out_edge ex_disk) \<longrightarrow> v = 0)"
    ..
  have v1: "v = 1" using v[THEN conjunct1] one by simp
  have a: "\<exists>v. energy_flux_double ex_disk (3 + 1 / 2 ^ 51) = Inr v \<and> 0 \<le> v \<and> v \<le> 1 \<and> v = 1"
    using v[THEN conjunct1] v[THEN conjunct2, THEN conjunct1]
      v[THEN conjunct2, THEN conjunct2, THEN conjunct1] v1
    by (intro exI[of _ v]) simp
  note vin = v[THEN conjunct2, THEN conjunct2, THEN conjunct2, THEN conjunct1, THEN mp, OF ins]
  have b: "energy_flux ex_disk (3 + 1 / 2 ^ 51) = Inr ((3 + 1 / 2 ^ 51 - 10) / (3 - 10)) \<and>
      (3 + 1 / 2 ^ 51 - 10) / (3 - 10) < (1::real)"
    using vin[THEN conjunct2, THEN conjunct1] vin[THEN conjunct2, THEN conjunct2, THEN conjunct2]
    by (simp add: ex_disk_def)
  from energy_flux_double_range[OF lo hi, of 12] obtain w where
    w: "energy_flux_double ex_disk 12 = Inr w \<and> 0 \<le> w \<and> w \<le> 1 \<and>
         (in_edge ex_disk < 12 \<and> 12 < out_edge ex_disk \<longrightarrow>
            w = round64 (round64 (1 / round64 (in_edge ex_disk - out_edge ex_disk)) *
                  round64 (12 - out_edge ex_disk)) \<and>
            energy_flux ex_disk 12 =
              Inr ((12 - out_edge ex_disk) / (in_edge ex_disk - out_edge ex_disk)) \<and>
            0 < (12 - out_edge ex_disk) / (in_edge ex_disk - out_edge ex_disk) \<and>
            (12 - out_edge ex_disk) / (in_edge ex_disk - out_edge ex_disk) < 1) \<and>
         (\<not> (in_edge ex_disk < 12 \<and> 12 < out_edge ex_disk) \<longrightarrow> w = 0)"
    ..
  have w0: "w = 0"
    by (rule w[THEN conjunct2, THEN conjunct2, THEN conjunct2, THEN conjunct2, THEN mp, OF outs])
  have c: "energy_flux_double ex_disk 12 = Inr 0" using w[THEN conjunct1] w0 by simp
  show ?thesis
    using lo hi ins[THEN conjunct1] ins[THEN conjunct2] a b[THEN conjunct1] b[THEN conjunct2] outs c
    by (intro conjI)
qed

end
